theory Spec2Isabelle
  imports Main "HOL-Library.Multiset"
begin

section \<open>Data model of the code graph (code-graph/src/index.js)\<close>

text \<open>
  A symbol is the object the fact extractor pushes for a declaration or a call site:
  \<^verbatim>\<open>{ type, name, file, line, ... }\<close>. The \<open>type\<close> field is one of the strings
  \<open>function\<close>, \<open>class\<close>, \<open>variable\<close>, \<open>call\<close>; \<open>extends\<close> is the superclass name of a class
  (\<open>undefined\<close> when there is none). The remaining kind-specific fields (params, async,
  generator, methods, properties, kind, arguments) are never read by the graph engine and are
  kept together in \<open>sym_attrs\<close>.
\<close>

record symbol =
  sym_type :: string
  sym_name :: string
  sym_file :: string
  sym_line :: nat
  sym_extends :: "string option"
  sym_attrs :: "(string \<times> string) list"

record metadata =
  createdAt :: "string option"
  updatedAt :: "string option"
  projectPath :: "string option"

text \<open>
  A JavaScript \<open>Map\<close> iterates in insertion order and holds each key once: it is an
  association list whose \<open>set\<close> overwrites in place or appends. A \<open>Set\<close> of strings is a
  list without repetition. A \<open>Set\<close> of edge objects never merges two members, since every
  \<open>add\<close> of the source passes a fresh object literal: it is a plain list.
\<close>

type_synonym ('k, 'v) jsmap = "('k \<times> 'v) list"

definition map_has :: "('k, 'v) jsmap \<Rightarrow> 'k \<Rightarrow> bool" where
  "map_has m k = (map_of m k \<noteq> None)"

fun map_set :: "('k, 'v) jsmap \<Rightarrow> 'k \<Rightarrow> 'v \<Rightarrow> ('k, 'v) jsmap" where
  "map_set [] k v = [(k, v)]"
| "map_set (p # m) k v = (if fst p = k then (k, v) # m else p # map_set m k v)"

text \<open>\<open>m.get(k) || new Set()\<close>: the members stored under \<open>k\<close>, none when the key is absent.\<close>

definition members :: "('k, 'v list) jsmap \<Rightarrow> 'k \<Rightarrow> 'v list" where
  "members m k = (case map_of m k of None \<Rightarrow> [] | Some xs \<Rightarrow> xs)"

definition set_add :: "string list \<Rightarrow> string \<Rightarrow> string list" where
  "set_add xs x = (if x \<in> set xs then xs else xs @ [x])"

text \<open>\<open>if (!m.has(k)) m.set(k, new Set())\<close>\<close>

definition ensure_key :: "('k, 'v list) jsmap \<Rightarrow> 'k \<Rightarrow> ('k, 'v list) jsmap" where
  "ensure_key m k = (if map_has m k then m else map_set m k [])"

text \<open>\<open>m.get(k).add(e)\<close> for a key that is present, \<open>e\<close> a fresh object.\<close>

definition push_member :: "('k, 'v list) jsmap \<Rightarrow> 'k \<Rightarrow> 'v \<Rightarrow> ('k, 'v list) jsmap" where
  "push_member m k e = map_set m k (members m k @ [e])"

text \<open>
  The store. A forward edge is the object \<open>{to, type}\<close> kept under its source id, a reverse
  edge the object \<open>{from, type}\<close> kept under its target id; both are pairs here.
\<close>

record code_graph =
  nodes :: "(string, symbol) jsmap"
  edges :: "(string, (string \<times> string) list) jsmap"
  reverseEdges :: "(string, (string \<times> string) list) jsmap"
  fileIndex :: "(string, string list) jsmap"
  projectHash :: "string option"
  metadata :: metadata

text \<open>\<open>new CodeGraph()\<close>; \<open>now\<close> is \<open>new Date().toISOString()\<close>.\<close>

definition new_CodeGraph :: "string \<Rightarrow> code_graph" where
  "new_CodeGraph now =
     \<lparr> nodes = [], edges = [], reverseEdges = [], fileIndex = [], projectHash = None,
       metadata = \<lparr> createdAt = Some now, updatedAt = Some now, projectPath = None \<rparr> \<rparr>"

definition addNode :: "code_graph \<Rightarrow> string \<Rightarrow> symbol \<Rightarrow> code_graph" where
  "addNode g ident data =
     g \<lparr> nodes := map_set (nodes g) ident data,
         edges := ensure_key (edges g) ident,
         reverseEdges := ensure_key (reverseEdges g) ident,
         fileIndex := map_set (fileIndex g) (sym_file data)
                        (set_add (members (fileIndex g) (sym_file data)) ident) \<rparr>"

definition addEdge :: "code_graph \<Rightarrow> string \<Rightarrow> string \<Rightarrow> string \<Rightarrow> code_graph" where
  "addEdge g from to ty =
     g \<lparr> edges := push_member (ensure_key (edges g) from) from (to, ty),
         reverseEdges := push_member (ensure_key (reverseEdges g) to) to (from, ty) \<rparr>"

subsection \<open>getConnections\<close>

record connection =
  c_from :: string
  c_to :: string
  c_type :: string
  fromData :: "symbol option"
  toData :: "symbol option"

text \<open>
  The state the closure \<open>traverse\<close> shares: the \<open>visited\<close> set and the \<open>result\<close> array.
  \<open>expanded\<close> is not a variable of the source: it logs every passage of the guard, that is
  every time the edge loops of a node are entered, and nothing reads it.
\<close>

record trav =
  visited :: "string list"
  result :: "connection list"
  expanded :: "string list"

definition follows_out :: "string \<Rightarrow> bool" where
  "follows_out direction = (direction = ''outgoing'' \<or> direction = ''both'')"

definition follows_in :: "string \<Rightarrow> bool" where
  "follows_in direction = (direction = ''incoming'' \<or> direction = ''both'')"

definition out_record :: "code_graph \<Rightarrow> string \<Rightarrow> string \<times> string \<Rightarrow> connection" where
  "out_record g nodeId edge =
     \<lparr> c_from = nodeId, c_to = fst edge, c_type = snd edge,
       fromData = map_of (nodes g) nodeId, toData = map_of (nodes g) (fst edge) \<rparr>"

definition in_record :: "code_graph \<Rightarrow> string \<Rightarrow> string \<times> string \<Rightarrow> connection" where
  "in_record g nodeId edge =
     \<lparr> c_from = fst edge, c_to = nodeId, c_type = snd edge,
       fromData = map_of (nodes g) (fst edge), toData = map_of (nodes g) nodeId \<rparr>"

definition push_result :: "connection \<Rightarrow> trav \<Rightarrow> trav" where
  "push_result c st = st \<lparr> result := result st @ [c] \<rparr>"

text \<open>
  The inner function \<open>traverse(nodeId, currentDepth)\<close>; \<open>depth\<close> is the integer the caller
  passed (negative ones included), \<open>currentDepth\<close> counts up from 0.
\<close>

function traverse :: "code_graph \<Rightarrow> string \<Rightarrow> int \<Rightarrow> string \<Rightarrow> nat \<Rightarrow> trav \<Rightarrow> trav" where
  "traverse g direction depth nodeId currentDepth st =
     (if int currentDepth > depth \<or> nodeId \<in> set (visited st) then st
      else
        let st1 = st \<lparr> visited := set_add (visited st) nodeId,
                       expanded := expanded st @ [nodeId] \<rparr>;
            st2 = (if follows_out direction
                   then fold (\<lambda>edge s. traverse g direction depth (fst edge) (currentDepth + 1)
                                          (push_result (out_record g nodeId edge) s))
                             (members (edges g) nodeId) st1
                   else st1)
        in (if follows_in direction
            then fold (\<lambda>edge s. traverse g direction depth (fst edge) (currentDepth + 1)
                                   (push_result (in_record g nodeId edge) s))
                      (members (reverseEdges g) nodeId) st2
            else st2))"
  by pat_completeness auto
termination
  by (relation "measure (\<lambda>(g, direction, depth, nodeId, currentDepth, st).
                   nat (depth + 1 - int currentDepth))") auto

declare traverse.simps [simp del]

definition run_traverse :: "code_graph \<Rightarrow> string \<Rightarrow> string \<Rightarrow> int \<Rightarrow> trav" where
  "run_traverse g ident direction depth =
     traverse g direction depth ident 0 \<lparr> visited = [], result = [], expanded = [] \<rparr>"

definition getConnections :: "code_graph \<Rightarrow> string \<Rightarrow> string \<Rightarrow> int \<Rightarrow> connection list" where
  "getConnections g ident direction depth = result (run_traverse g ident direction depth)"

subsection \<open>toJSON and fromJSON\<close>

text \<open>
  The document \<open>toJSON\<close> returns: node objects \<open>{ id, ...data }\<close>, edge objects
  \<open>{ from, to, type }\<close> and file index entries \<open>{ file, nodeIds }\<close>. A field that a parsed
  document may lack is optional, as \<open>fromJSON\<close> reads it with \<open>|| []\<close> or \<open>|| {}\<close>.
\<close>

record graph_json =
  j_metadata :: "metadata option"
  j_projectHash :: "string option"
  j_nodes :: "(string \<times> symbol) list option"
  j_edges :: "(string \<times> string \<times> string) list option"
  j_fileIndex :: "(string \<times> string list) list option"

text \<open>\<open>edgesArray\<close>: every forward edge of the store with its source, in iteration order.\<close>

definition edgesArray :: "code_graph \<Rightarrow> (string \<times> string \<times> string) list" where
  "edgesArray g = concat (map (\<lambda>entry. map (\<lambda>edge. (fst entry, edge)) (snd entry)) (edges g))"

definition toJSON :: "code_graph \<Rightarrow> graph_json" where
  "toJSON g =
     \<lparr> j_metadata = Some (metadata g),
       j_projectHash = projectHash g,
       j_nodes = Some (nodes g),
       j_edges = Some (edgesArray g),
       j_fileIndex = Some (fileIndex g) \<rparr>"

text \<open>\<open>new Set(array)\<close>: the first occurrence of each element, in order.\<close>

definition new_Set :: "string list \<Rightarrow> string list" where
  "new_Set xs = fold (\<lambda>x s. set_add s x) xs []"

definition or_empty :: "'a list option \<Rightarrow> 'a list" where
  "or_empty xs = (case xs of None \<Rightarrow> [] | Some ys \<Rightarrow> ys)"

definition load_node :: "string \<times> symbol \<Rightarrow> code_graph \<Rightarrow> code_graph" where
  "load_node node graph =
     graph \<lparr> nodes := map_set (nodes graph) (fst node) (snd node),
             edges := ensure_key (edges graph) (fst node),
             reverseEdges := ensure_key (reverseEdges graph) (fst node) \<rparr>"

definition load_edge :: "string \<times> string \<times> string \<Rightarrow> code_graph \<Rightarrow> code_graph" where
  "load_edge edge graph =
     (let from = fst edge; edgeData = snd edge
      in graph \<lparr> edges := push_member (ensure_key (edges graph) from) from edgeData,
                 reverseEdges := push_member (ensure_key (reverseEdges graph) (fst edgeData))
                                   (fst edgeData) (from, snd edgeData) \<rparr>)"

definition load_file_entry :: "string \<times> string list \<Rightarrow> code_graph \<Rightarrow> code_graph" where
  "load_file_entry entry graph =
     graph \<lparr> fileIndex := map_set (fileIndex graph) (fst entry) (new_Set (snd entry)) \<rparr>"

text \<open>\<open>CodeGraph.fromJSON(data)\<close>; \<open>now\<close> is the clock the constructor reads.\<close>

definition fromJSON :: "string \<Rightarrow> graph_json \<Rightarrow> code_graph" where
  "fromJSON now data =
     (let graph = (new_CodeGraph now)
            \<lparr> metadata := (case j_metadata data of
                              None \<Rightarrow> \<lparr> createdAt = None, updatedAt = None, projectPath = None \<rparr>
                            | Some m \<Rightarrow> m),
              projectHash := j_projectHash data \<rparr>;
          graph = fold load_node (or_empty (j_nodes data)) graph;
          graph = fold load_edge (or_empty (j_edges data)) graph
      in fold load_file_entry (or_empty (j_fileIndex data)) graph)"

text \<open>
  What the \<open>Map\<close> and \<open>Set\<close> objects of a store guarantee by construction: a key occurs once
  in a map, an id once in a file's set. \<open>flat\<close> lists the members of a map of sets with their
  keys.
\<close>

definition map_wf :: "('k \<times> 'v) list \<Rightarrow> bool" where
  "map_wf m = distinct (map fst m)"

definition store_wf :: "code_graph \<Rightarrow> bool" where
  "store_wf g = (map_wf (nodes g) \<and> map_wf (edges g) \<and> map_wf (fileIndex g) \<and>
                 list_all (\<lambda>entry. distinct (snd entry)) (fileIndex g))"

definition flat :: "('k \<times> 'e list) list \<Rightarrow> ('k \<times> 'e) list" where
  "flat m = concat (map (\<lambda>entry. map (\<lambda>edge. (fst entry, edge)) (snd entry)) m)"

subsection \<open>The platform\<close>

text \<open>
  The configuration and the built-ins of JavaScript and Node, which are not code of the
  repository: \<open>config.maxFileSize\<close>, \<open>config.dbPath\<close>, \<open>path.dirname\<close>, \<open>path.join\<close>, the hex
  MD5 digest, \<open>JSON.stringify\<close> of a document, \<open>JSON.parse\<close> of a cache file (\<open>None\<close> when
  the text is not a document that can be read back), and \<open>String.prototype.toLowerCase\<close>.
\<close>

record env =
  maxFileSize :: nat
  dbPath :: string
  path_dirname :: "string \<Rightarrow> string"
  path_join :: "string \<Rightarrow> string \<Rightarrow> string"
  md5_hex :: "string \<Rightarrow> string"
  json_stringify :: "graph_json \<Rightarrow> string"
  json_parse :: "string \<Rightarrow> graph_json option"
  toLowerCase :: "string \<Rightarrow> string"


subsection \<open>Hop distance in the store\<close>

text \<open>
  The ids one hop away from \<open>n\<close> along the edges a traversal in \<open>direction\<close> follows, and
  whether \<open>b\<close> can be reached from \<open>a\<close> in at most \<open>k\<close> such hops.
\<close>

definition neighbours :: "code_graph \<Rightarrow> string \<Rightarrow> string \<Rightarrow> string list" where
  "neighbours g direction n =
     (if follows_out direction then map fst (members (edges g) n) else []) @
     (if follows_in direction then map fst (members (reverseEdges g) n) else [])"

fun within_hops :: "code_graph \<Rightarrow> string \<Rightarrow> nat \<Rightarrow> string \<Rightarrow> string \<Rightarrow> bool" where
  "within_hops g direction 0 a b = (a = b)"
| "within_hops g direction (Suc k) a b =
     (a = b \<or> list_ex (\<lambda>m. within_hops g direction k m b) (neighbours g direction a))"

subsection \<open>searchNodes\<close>

text \<open>\<open>String.prototype.includes\<close>: the query occurs somewhere in the string.\<close>

fun includes_str :: "string \<Rightarrow> string \<Rightarrow> bool" where
  "includes_str [] q = (q = [])"
| "includes_str (c # s) q = (take (length q) (c # s) = q \<or> includes_str s q)"

text \<open>One element of the result: \<open>{ id, ...node, score }\<close>.\<close>

record search_hit =
  hit_id :: string
  hit_node :: symbol
  score :: int

text \<open>
  \<open>Array.prototype.sort(compare)\<close>: a stable sort, an element staying before the ones it
  does not compare greater than.
\<close>

fun insert_sorted :: "('a \<Rightarrow> 'a \<Rightarrow> int) \<Rightarrow> 'a \<Rightarrow> 'a list \<Rightarrow> 'a list" where
  "insert_sorted compare x [] = [x]"
| "insert_sorted compare x (y # ys) =
     (if compare x y \<le> 0 then x # y # ys else y # insert_sorted compare x ys)"

definition array_sort :: "('a \<Rightarrow> 'a \<Rightarrow> int) \<Rightarrow> 'a list \<Rightarrow> 'a list" where
  "array_sort compare xs = foldr (insert_sorted compare) xs []"

text \<open>A JavaScript string used as a condition: \<open>null\<close>, \<open>undefined\<close> and \<open>''\<close> are falsy.\<close>

definition truthy :: "string option \<Rightarrow> bool" where
  "truthy s = (case s of None \<Rightarrow> False | Some t \<Rightarrow> t \<noteq> [])"

text \<open>
  \<open>node.name.toLowerCase().includes(lowerQuery)\<close> and the same test on \<open>node.file\<close>, with
  the platform's \<open>toLowerCase\<close>.
\<close>

definition name_match :: "env \<Rightarrow> string \<Rightarrow> symbol \<Rightarrow> bool" where
  "name_match e query node =
     includes_str (toLowerCase e (sym_name node)) (toLowerCase e query)"

definition file_match :: "env \<Rightarrow> string \<Rightarrow> symbol \<Rightarrow> bool" where
  "file_match e query node =
     includes_str (toLowerCase e (sym_file node)) (toLowerCase e query)"

text \<open>The body of the loop over \<open>this.nodes\<close>; \<open>ty\<close> is the optional type filter.\<close>

definition search_step :: "env \<Rightarrow> string \<Rightarrow> string option \<Rightarrow> string \<times> symbol \<Rightarrow> search_hit list \<Rightarrow> search_hit list" where
  "search_step e query ty entry results =
     (if truthy ty \<and> Some (sym_type (snd entry)) \<noteq> ty then results
      else
        let nameMatch = name_match e query (snd entry);
            fileMatch = file_match e query (snd entry)
        in if nameMatch \<or> fileMatch
           then results @ [\<lparr> hit_id = fst entry, hit_node = snd entry,
                              score = (if nameMatch then 2 else 1) \<rparr>]
           else results)"

definition searchNodes :: "env \<Rightarrow> code_graph \<Rightarrow> string \<Rightarrow> string option \<Rightarrow> search_hit list" where
  "searchNodes e g query ty =
     array_sort (\<lambda>a b. score b - score a) (fold (search_step e query ty) (nodes g) [])"

text \<open>
  The entries \<open>searchNodes\<close> keeps and the element it builds for each, read off the loop:
  the type filter passes when no (or an empty) type is given or the node's type equals it.
\<close>

definition passes_filter :: "string option \<Rightarrow> symbol \<Rightarrow> bool" where
  "passes_filter ty node = (\<not> truthy ty \<or> Some (sym_type node) = ty)"

definition hit_of :: "env \<Rightarrow> string \<Rightarrow> string \<times> symbol \<Rightarrow> search_hit" where
  "hit_of e query entry = \<lparr> hit_id = fst entry, hit_node = snd entry,
      score = (if name_match e query (snd entry) then 2 else 1) \<rparr>"

definition matching :: "env \<Rightarrow> string \<Rightarrow> string option \<Rightarrow> string \<times> symbol \<Rightarrow> bool" where
  "matching e query ty entry =
     (passes_filter ty (snd entry) \<and> (name_match e query (snd entry) \<or> file_match e query (snd entry)))"

subsection \<open>The facts of a file\<close>

text \<open>
  What \<open>parseJavaScriptFile\<close> returns for a file: its symbols (declarations and call sites),
  its import specifiers and its export statements.
\<close>

record import_fact =
  imp_source :: string
  imp_imported :: string
  imp_local :: string
  imp_line :: nat

record export_fact =
  exp_exported :: string
  exp_local :: "string option"
  exp_line :: nat

record parsed_file =
  pf_symbols :: "symbol list"
  pf_imports :: "import_fact list"
  pf_exports :: "export_fact list"

text \<open>
  A file the glob found: whether \<open>readFile\<close> and \<open>stat\<close> succeed on it, its size, and the
  facts the extractor returns for it (empty lists when it cannot be parsed).
\<close>

record source_file =
  sf_path :: string
  sf_readable :: bool
  sf_size :: nat
  sf_parsed :: parsed_file

text \<open>A line number inside a template literal: its decimal digits.\<close>

definition digit_char :: "nat \<Rightarrow> char" where
  "digit_char d = char_of (48 + d)"

fun string_of_nat :: "nat \<Rightarrow> string" where
  "string_of_nat n =
     (let last_digit = [digit_char (n mod 10)]
      in if n < 10 then last_digit else string_of_nat (n div 10) @ last_digit)"

declare string_of_nat.simps [simp del]

text \<open>\<^verbatim>\<open>`${file}:${symbol.name}:${symbol.line}`\<close>\<close>

definition node_id :: "string \<Rightarrow> string \<Rightarrow> nat \<Rightarrow> string" where
  "node_id file nm ln = file @ '':'' @ nm @ '':'' @ string_of_nat ln"

text \<open>\<^verbatim>\<open>`${file}:import:${imp.line}`\<close> and \<^verbatim>\<open>`${file}:${symbol.line}`\<close>\<close>

definition import_site :: "string \<Rightarrow> nat \<Rightarrow> string" where
  "import_site file ln = file @ '':import:'' @ string_of_nat ln"

definition call_site :: "string \<Rightarrow> nat \<Rightarrow> string" where
  "call_site file ln = file @ '':'' @ string_of_nat ln"

subsection \<open>buildCodeGraph: parsing the files\<close>

definition add_symbols :: "string \<Rightarrow> symbol list \<Rightarrow> code_graph \<Rightarrow> code_graph" where
  "add_symbols file syms g =
     fold (\<lambda>symbol g. if sym_type symbol \<noteq> ''call''
                       then addNode g (node_id file (sym_name symbol) (sym_line symbol)) symbol
                       else g)
          syms g"

text \<open>
  One turn of the loop over \<open>files\<close>, on the pair of \<open>fileData\<close> and the graph. A file that
  cannot be read raises into the \<open>catch\<close> and is skipped; an oversized one is skipped by
  \<open>continue\<close>.
\<close>

definition parse_file ::
  "env \<Rightarrow> source_file \<Rightarrow> (string, parsed_file) jsmap \<times> code_graph
     \<Rightarrow> (string, parsed_file) jsmap \<times> code_graph" where
  "parse_file e sf st =
     (if \<not> sf_readable sf then st
      else if sf_size sf > maxFileSize e then st
      else (map_set (fst st) (sf_path sf) (sf_parsed sf),
            add_symbols (sf_path sf) (pf_symbols (sf_parsed sf)) (snd st)))"

subsection \<open>buildCodeGraph: imports\<close>

definition startsWith :: "string \<Rightarrow> string \<Rightarrow> bool" where
  "startsWith s p = (take (length p) s = p)"

definition endsWith :: "string \<Rightarrow> string \<Rightarrow> bool" where
  "endsWith s p = (length p \<le> length s \<and> drop (length s - length p) s = p)"

text \<open>\<^verbatim>\<open>replace(/\\/g, '/')\<close> and \<^verbatim>\<open>replace(/^\.\//, '')\<close>\<close>

definition slashes :: "string \<Rightarrow> string" where
  "slashes s = map (\<lambda>c. if c = CHR 0x5C then CHR ''/'' else c) s"

definition strip_dot_slash :: "string \<Rightarrow> string" where
  "strip_dot_slash s = (if startsWith s ''./'' then drop 2 s else s)"

definition resolvedPath :: "env \<Rightarrow> string \<Rightarrow> import_fact \<Rightarrow> string" where
  "resolvedPath e file imp = slashes (path_join e (path_dirname e file) (imp_source imp))"

definition possibleFiles :: "env \<Rightarrow> string \<Rightarrow> import_fact \<Rightarrow> string list" where
  "possibleFiles e file imp =
     [resolvedPath e file imp @ ''.js'',
      resolvedPath e file imp @ ''.ts'',
      resolvedPath e file imp @ ''.jsx'',
      resolvedPath e file imp @ ''.tsx'',
      resolvedPath e file imp @ ''/index.js'',
      resolvedPath e file imp @ ''/index.ts'']"

text \<open>The loop over \<open>targetData.symbols\<close> once the imported file is found.\<close>

definition link_import ::
  "string \<Rightarrow> import_fact \<Rightarrow> string \<Rightarrow> parsed_file \<Rightarrow> code_graph \<Rightarrow> code_graph" where
  "link_import file imp normalizedPath targetData g =
     fold (\<lambda>symbol g.
            if sym_name symbol = imp_local imp \<or>
               (imp_imported imp = ''default'' \<and>
                list_ex (\<lambda>ex. exp_exported ex = ''default'') (pf_exports targetData))
            then
              let fromId = import_site file (imp_line imp);
                  toId = node_id normalizedPath (sym_name symbol) (sym_line symbol)
              in if map_has (nodes g) toId then addEdge g fromId toId ''imports'' else g
            else g)
          (pf_symbols targetData) g"

text \<open>The loop over \<open>possibleFiles\<close>, left by \<open>break\<close> at the first file of \<open>fileData\<close>.\<close>

fun try_files ::
  "(string, parsed_file) jsmap \<Rightarrow> string \<Rightarrow> import_fact \<Rightarrow> string list \<Rightarrow> code_graph
     \<Rightarrow> code_graph" where
  "try_files fileData file imp [] g = g"
| "try_files fileData file imp (possibleFile # others) g =
     (let normalizedPath = strip_dot_slash possibleFile
      in case map_of fileData normalizedPath of
           Some targetData \<Rightarrow> link_import file imp normalizedPath targetData g
         | None \<Rightarrow> try_files fileData file imp others g)"

definition connect_import ::
  "env \<Rightarrow> (string, parsed_file) jsmap \<Rightarrow> string \<Rightarrow> import_fact \<Rightarrow> code_graph \<Rightarrow> code_graph" where
  "connect_import e fileData file imp g =
     (if startsWith (imp_source imp) ''.''
      then try_files fileData file imp (possibleFiles e file imp) g
      else g)"

subsection \<open>buildCodeGraph: calls and inheritance\<close>

text \<open>The two nested loops over every symbol of every file, for one call symbol.\<close>

definition connect_call ::
  "(string, parsed_file) jsmap \<Rightarrow> string \<Rightarrow> symbol \<Rightarrow> code_graph \<Rightarrow> code_graph" where
  "connect_call fileData file symbol g =
     (let callerId = call_site file (sym_line symbol)
      in fold (\<lambda>other g.
                 fold (\<lambda>otherSymbol g.
                         if sym_type otherSymbol = ''function'' \<and>
                            sym_name otherSymbol = sym_name symbol
                         then
                           let targetId = node_id (fst other) (sym_name otherSymbol)
                                            (sym_line otherSymbol)
                           in if map_has (nodes g) targetId
                              then addEdge g callerId targetId ''calls'' else g
                         else g)
                      (pf_symbols (snd other)) g)
              fileData g)"

definition connect_extends ::
  "(string, parsed_file) jsmap \<Rightarrow> string \<Rightarrow> symbol \<Rightarrow> code_graph \<Rightarrow> code_graph" where
  "connect_extends fileData file symbol g =
     (let classId = node_id file (sym_name symbol) (sym_line symbol)
      in fold (\<lambda>other g.
                 fold (\<lambda>otherSymbol g.
                         if sym_type otherSymbol = ''class'' \<and>
                            Some (sym_name otherSymbol) = sym_extends symbol
                         then
                           let parentId = node_id (fst other) (sym_name otherSymbol)
                                            (sym_line otherSymbol)
                           in if map_has (nodes g) parentId
                              then addEdge g classId parentId ''extends'' else g
                         else g)
                      (pf_symbols (snd other)) g)
              fileData g)"

text \<open>One turn of the loop \<open>for (const [file, data] of fileData)\<close>.\<close>

definition connect_file ::
  "env \<Rightarrow> (string, parsed_file) jsmap \<Rightarrow> string \<times> parsed_file \<Rightarrow> code_graph \<Rightarrow> code_graph" where
  "connect_file e fileData entry g =
     (let file = fst entry; data = snd entry;
          g = fold (connect_import e fileData file) (pf_imports data) g;
          g = fold (\<lambda>symbol g. if sym_type symbol = ''call''
                                then connect_call fileData file symbol g else g)
                   (pf_symbols data) g
      in fold (\<lambda>symbol g. if sym_type symbol = ''class'' \<and> truthy (sym_extends symbol)
                            then connect_extends fileData file symbol g else g)
              (pf_symbols data) g)"

text \<open>\<open>fileData\<close> and the graph when the loop over \<open>files\<close> is left.\<close>

definition parse_files ::
  "env \<Rightarrow> string \<Rightarrow> source_file list \<Rightarrow> (string, parsed_file) jsmap \<times> code_graph" where
  "parse_files e now files = fold (parse_file e) files ([], new_CodeGraph now)"

text \<open>The graph \<open>buildCodeGraph\<close> has built when it reaches \<open>saveGraph\<close>.\<close>

definition build_graph :: "env \<Rightarrow> string \<Rightarrow> source_file list \<Rightarrow> code_graph" where
  "build_graph e now files =
     (let st = parse_files e now files
      in fold (connect_file e (fst st)) (fst st) (snd st))"

subsection \<open>The cache directory\<close>

text \<open>
  The directory \<open>config.dbPath\<close>: whether it exists, the text of each of its files by name,
  and whether it refuses changes. \<open>fs.readFile\<close> and \<open>fs.unlink\<close> raise \<open>ENOENT\<close> on a
  missing file; \<open>fs.unlink\<close> and \<open>fs.writeFile\<close> raise \<open>EACCES\<close> in a directory that
  refuses changes. Creating the directory always succeeds.
\<close>

datatype errno = ENOENT | EACCES

record fs_state =
  db_exists :: bool
  db_readonly :: bool
  db_files :: "(string, string) jsmap"

definition fs_readFile :: "fs_state \<Rightarrow> string \<Rightarrow> errno + string" where
  "fs_readFile fs fname = (case map_of (db_files fs) fname of None \<Rightarrow> Inl ENOENT | Some text \<Rightarrow> Inr text)"

definition fs_unlink :: "fs_state \<Rightarrow> string \<Rightarrow> errno + fs_state" where
  "fs_unlink fs fname =
     (if \<not> map_has (db_files fs) fname then Inl ENOENT
      else if db_readonly fs then Inl EACCES
      else Inr (fs \<lparr> db_files := filter (\<lambda>entry. fst entry \<noteq> fname) (db_files fs) \<rparr>))"

definition fs_writeFile :: "fs_state \<Rightarrow> string \<Rightarrow> string \<Rightarrow> errno + fs_state" where
  "fs_writeFile fs fname text =
     (if db_readonly fs then Inl EACCES
      else Inr (fs \<lparr> db_files := map_set (db_files fs) fname text \<rparr>))"

definition ensureDbDirectory :: "fs_state \<Rightarrow> fs_state" where
  "ensureDbDirectory fs = (if db_exists fs then fs else fs \<lparr> db_exists := True \<rparr>)"

definition generateProjectHash :: "env \<Rightarrow> string \<Rightarrow> string" where
  "generateProjectHash e path = md5_hex e path"

text \<open>\<^verbatim>\<open>`graph_${hash}.json`\<close>\<close>

definition cache_filename :: "env \<Rightarrow> string \<Rightarrow> string" where
  "cache_filename e path = ''graph_'' @ generateProjectHash e path @ ''.json''"

subsection \<open>saveGraph, loadGraph, deleteGraph, listCachedGraphs\<close>

text \<open>
  Each function takes the directory and, where it touches it, the global \<open>codeGraph\<close>, and
  returns them with its outcome: \<open>Inl\<close> an error it lets escape, \<open>Inr\<close> the value it returns.
  \<open>saveGraph\<close> stamps the graph before it writes, so the graph is stamped also when the
  write fails.
\<close>

definition saveGraph ::
  "env \<Rightarrow> string \<Rightarrow> fs_state \<Rightarrow> code_graph \<Rightarrow> string \<Rightarrow> (errno + string) \<times> fs_state \<times> code_graph" where
  "saveGraph e now fs g path =
     (let fs1 = ensureDbDirectory fs;
          hash = generateProjectHash e path;
          fname = cache_filename e path;
          filepath = path_join e (dbPath e) fname;
          g1 = g \<lparr> projectHash := Some hash,
                   metadata := (metadata g) \<lparr> updatedAt := Some now, projectPath := Some path \<rparr> \<rparr>
      in case fs_writeFile fs1 fname (json_stringify e (toJSON g1)) of
           Inl err \<Rightarrow> (Inl err, fs1, g1)
         | Inr fs2 \<Rightarrow> (Inr filepath, fs2, g1))"

text \<open>
  \<open>loadGraph\<close>: the read, \<open>JSON.parse\<close> and \<open>fromJSON\<close> stand in one \<open>try\<close> whose \<open>catch\<close>
  returns \<open>false\<close> for every error; the assignment to \<open>codeGraph\<close> is its last step.
\<close>

definition loadGraph ::
  "env \<Rightarrow> string \<Rightarrow> fs_state \<Rightarrow> code_graph \<Rightarrow> string \<Rightarrow> bool \<times> fs_state \<times> code_graph" where
  "loadGraph e now fs codeGraph path =
     (let fs1 = ensureDbDirectory fs;
          fname = cache_filename e path
      in case fs_readFile fs1 fname of
           Inl err \<Rightarrow> (False, fs1, codeGraph)
         | Inr text \<Rightarrow>
             (case json_parse e text of
                None \<Rightarrow> (False, fs1, codeGraph)
              | Some doc \<Rightarrow> (True, fs1, fromJSON now doc)))"

definition deleteGraph :: "env \<Rightarrow> fs_state \<Rightarrow> string \<Rightarrow> (errno + bool) \<times> fs_state" where
  "deleteGraph e fs path =
     (let fs1 = ensureDbDirectory fs;
          fname = cache_filename e path
      in case fs_unlink fs1 fname of
           Inr fs2 \<Rightarrow> (Inr True, fs2)
         | Inl err \<Rightarrow> (if err = ENOENT then (Inr False, fs1) else (Inl err, fs1)))"

record cached_graph =
  cg_file :: string
  cg_projectPath :: "string option"
  cg_createdAt :: "string option"
  cg_updatedAt :: "string option"
  cg_nodeCount :: nat
  cg_edgeCount :: nat

definition summarize :: "string \<Rightarrow> graph_json \<Rightarrow> cached_graph" where
  "summarize fname graph =
     \<lparr> cg_file = fname,
       cg_projectPath = (case j_metadata graph of None \<Rightarrow> None | Some m \<Rightarrow> projectPath m),
       cg_createdAt = (case j_metadata graph of None \<Rightarrow> None | Some m \<Rightarrow> createdAt m),
       cg_updatedAt = (case j_metadata graph of None \<Rightarrow> None | Some m \<Rightarrow> updatedAt m),
       cg_nodeCount = length (or_empty (j_nodes graph)),
       cg_edgeCount = length (or_empty (j_edges graph)) \<rparr>"

definition listCachedGraphs :: "env \<Rightarrow> fs_state \<Rightarrow> cached_graph list \<times> fs_state" where
  "listCachedGraphs e fs =
     (let fs1 = ensureDbDirectory fs
      in (fold (\<lambda>entry graphs.
                  if startsWith (fst entry) ''graph_'' \<and> endsWith (fst entry) ''.json''
                  then (case json_parse e (snd entry) of
                          None \<Rightarrow> graphs
                        | Some graph \<Rightarrow> graphs @ [summarize (fst entry) graph])
                  else graphs)
               (db_files fs1) [],
          fs1))"

subsection \<open>The clear_cache tool\<close>

text \<open>
  What the request handler answers: the object \<open>{ success, message }\<close> it serialises, or,
  from its \<open>catch\<close>, the error with \<open>isError\<close> set.
\<close>

datatype tool_reply = Reply bool string | ErrorReply errno

text \<open>The loop of the branch that clears every cache, with its counter.\<close>

fun delete_each ::
  "env \<Rightarrow> cached_graph list \<Rightarrow> fs_state \<Rightarrow> nat \<Rightarrow> (errno + nat) \<times> fs_state" where
  "delete_each e [] fs deletedCount = (Inr deletedCount, fs)"
| "delete_each e (graph # graphs) fs deletedCount =
     (case cg_projectPath graph of
        None \<Rightarrow> delete_each e graphs fs deletedCount
      | Some path \<Rightarrow>
          if path = [] then delete_each e graphs fs deletedCount
          else (case deleteGraph e fs path of
                  (Inl err, fs1) \<Rightarrow> (Inl err, fs1)
                | (Inr deleted, fs1) \<Rightarrow>
                    delete_each e graphs fs1 (if deleted then deletedCount + 1 else deletedCount)))"

text \<open>\<open>case 'clear_cache'\<close>; \<open>path\<close> is \<open>args.path\<close>, which the schema leaves optional.\<close>

definition clear_cache :: "env \<Rightarrow> fs_state \<Rightarrow> string option \<Rightarrow> tool_reply \<times> fs_state" where
  "clear_cache e fs path =
     (if truthy path
      then (case deleteGraph e fs (case path of Some p \<Rightarrow> p | None \<Rightarrow> []) of
              (Inl err, fs1) \<Rightarrow> (ErrorReply err, fs1)
            | (Inr deleted, fs1) \<Rightarrow>
                (Reply deleted (if deleted then ''Cache cleared for project''
                                else ''No cache found for project''), fs1))
      else (case listCachedGraphs e fs of
              (graphs, fs1) \<Rightarrow>
                (case delete_each e graphs fs1 0 of
                   (Inl err, fs2) \<Rightarrow> (ErrorReply err, fs2)
                 | (Inr deletedCount, fs2) \<Rightarrow>
                     (Reply True (''Cleared '' @ string_of_nat deletedCount @ '' cached graphs''),
                      fs2))))"

subsection \<open>buildCodeGraph\<close>

record build_stats =
  nodeCount :: nat
  edgeCount :: nat
  fileCount :: nat
  cached :: bool

text \<open>
  \<open>buildCodeGraph(rootPath)\<close> on the files the glob found; \<open>t0\<close> and \<open>t1\<close> are the clock at
  the construction of the graph and at the save. The global \<open>codeGraph\<close> is the third
  component of the result, also when the save raises.
\<close>

definition buildCodeGraph ::
  "env \<Rightarrow> string \<Rightarrow> string \<Rightarrow> fs_state \<Rightarrow> string \<Rightarrow> source_file list
     \<Rightarrow> (errno + build_stats) \<times> fs_state \<times> code_graph" where
  "buildCodeGraph e t0 t1 fs rootPath files =
     (case saveGraph e t1 fs (build_graph e t0 files) rootPath of
        (Inl err, fs1, g) \<Rightarrow> (Inl err, fs1, g)
      | (Inr filepath, fs1, g) \<Rightarrow>
          (Inr \<lparr> nodeCount = length (nodes g),
                 edgeCount = sum_list (map (\<lambda>entry. length (snd entry)) (edges g)),
                 fileCount = length files,
                 cached = True \<rparr>,
           fs1, g))"

subsection \<open>Invariants of the build\<close>

text \<open>
  \<open>declared\<close>: every symbol of \<open>fileData\<close> that is not a call has its id in the node map.
  \<open>edge_ok\<close>: an edge \<open>(from, to, type)\<close> ends at a key of the node map \<open>N\<close> and is an
  \<open>imports\<close> edge from an import site, a \<open>calls\<close> edge from a call site, or an \<open>extends\<close>
  edge from a key of \<open>N\<close>. \<open>build_inv\<close>: the graph has the node map \<open>N\<close> and only such edges.
\<close>

definition declared :: "(string, parsed_file) jsmap \<Rightarrow> code_graph \<Rightarrow> bool" where
  "declared fileData g =
     list_all (\<lambda>entry.
        list_all (\<lambda>s. sym_type s = ''call'' \<or>
                       map_has (nodes g) (node_id (fst entry) (sym_name s) (sym_line s)))
                 (pf_symbols (snd entry)))
       fileData"

definition edge_ok :: "(string, symbol) jsmap \<Rightarrow> string \<times> string \<times> string \<Rightarrow> bool" where
  "edge_ok N edge =
     (map_has N (fst (snd edge)) \<and>
      ((snd (snd edge) = ''imports'' \<and> (\<exists>file ln. fst edge = import_site file ln)) \<or>
       (snd (snd edge) = ''calls'' \<and> (\<exists>file ln. fst edge = call_site file ln)) \<or>
       (snd (snd edge) = ''extends'' \<and> map_has N (fst edge))))"

definition build_inv :: "(string, symbol) jsmap \<Rightarrow> code_graph \<Rightarrow> bool" where
  "build_inv N g = (nodes g = N \<and> (\<forall>edge \<in> set (edgesArray g). edge_ok N edge))"




text \<open>
  \<open>edge_origin\<close>: an edge starts at the import site of an import of a file of \<open>fileData\<close>
  (an \<open>imports\<close> edge), at the call site of a call symbol of such a file (a \<open>calls\<close> edge),
  or at the id of a class symbol of such a file (an \<open>extends\<close> edge); \<open>origin_inv\<close>: every
  edge of the graph does. \<open>declaration_ids\<close>: the ids of the symbols of the files that are
  not calls.
\<close>

definition edge_origin :: "(string, parsed_file) jsmap \<Rightarrow> string \<times> string \<times> string \<Rightarrow> bool" where
  "edge_origin fileData edge =
     ((snd (snd edge) = ''imports'' \<and>
       (\<exists>entry \<in> set fileData. \<exists>imp \<in> set (pf_imports (snd entry)).
          fst edge = import_site (fst entry) (imp_line imp))) \<or>
      (snd (snd edge) = ''calls'' \<and>
       (\<exists>entry \<in> set fileData. \<exists>c \<in> set (pf_symbols (snd entry)).
          sym_type c = ''call'' \<and> fst edge = call_site (fst entry) (sym_line c))) \<or>
      (snd (snd edge) = ''extends'' \<and>
       (\<exists>entry \<in> set fileData. \<exists>s \<in> set (pf_symbols (snd entry)).
          sym_type s = ''class'' \<and> fst edge = node_id (fst entry) (sym_name s) (sym_line s))))"

definition origin_inv :: "(string, parsed_file) jsmap \<Rightarrow> code_graph \<Rightarrow> bool" where
  "origin_inv fileData g = (\<forall>edge \<in> set (edgesArray g). edge_origin fileData edge)"

definition declaration_ids :: "source_file list \<Rightarrow> string \<Rightarrow> bool" where
  "declaration_ids files k =
     (\<exists>sf \<in> set files. \<exists>s \<in> set (pf_symbols (sf_parsed sf)).
        sym_type s \<noteq> ''call'' \<and> k = node_id (sf_path sf) (sym_name s) (sym_line s))"

subsection \<open>Example stores\<close>

definition plain_symbol :: "string \<Rightarrow> string \<Rightarrow> string \<Rightarrow> nat \<Rightarrow> symbol" where
  "plain_symbol ty nm fl ln =
     \<lparr> sym_type = ty, sym_name = nm, sym_file = fl, sym_line = ln,
       sym_extends = None, sym_attrs = [] \<rparr>"

text \<open>A chain \<open>a \<rightarrow> b \<rightarrow> c\<close> of calls, and two classes extending each other.\<close>

definition chain_graph :: code_graph where
  "chain_graph =
     addEdge (addEdge (new_CodeGraph ''t'') ''a'' ''b'' ''calls'') ''b'' ''c'' ''calls''"

definition cycle_graph :: code_graph where
  "cycle_graph =
     addEdge (addEdge (new_CodeGraph ''t'') ''a'' ''b'' ''extends'') ''b'' ''a'' ''extends''"

text \<open>
  A variable \<open>bar\<close> declared in \<open>foo/b.js\<close> and a function \<open>Foo\<close> declared in \<open>lib/util.js\<close>: the
  query \<open>FOO\<close> matches the first by its file path only and the second by its name.
\<close>

definition search_graph :: code_graph where
  "search_graph =
     addNode (addNode (new_CodeGraph ''t'')
                ''foo/b.js:bar:7'' (plain_symbol ''variable'' ''bar'' ''foo/b.js'' 7))
       ''lib/util.js:Foo:3'' (plain_symbol ''function'' ''Foo'' ''lib/util.js'' 3)"

text \<open>
  A store whose forward map got the call site \<open>b.js:2\<close> as a key before the class
  \<open>Derived\<close> was added as a node.
\<close>

definition saved_graph :: code_graph where
  "saved_graph =
     addEdge
       (addNode
          (addEdge
             (addNode (new_CodeGraph ''t'') ''a.js:foo:1''
                (plain_symbol ''function'' ''foo'' ''a.js'' 1))
             ''b.js:2'' ''a.js:foo:1'' ''calls'')
          ''b.js:Derived:4'' (plain_symbol ''class'' ''Derived'' ''b.js'' 4))
       ''b.js:Derived:4'' ''a.js:foo:1'' ''extends''"

subsection \<open>An example project\<close>

text \<open>
  A platform for the examples: the size limit is set to 500 bytes (\<open>MAX_FILE_SIZE=500\<close>);
  for a file at the project root \<open>path.dirname\<close> is \<open>.\<close>, and
  \<open>path.join\<close> drops a leading \<open>./\<close>; the digests are the MD5 digests of the two project
  paths used; the serialisation keeps the project path of a document only.
\<close>

definition demo_join :: "string \<Rightarrow> string \<Rightarrow> string" where
  "demo_join dir s =
     (let d = (if startsWith dir ''./'' then drop 2 dir else dir);
          t = (if startsWith s ''./'' then drop 2 s else s)
      in if d = ''.'' then t else d @ ''/'' @ t)"

definition demo_parse :: "string \<Rightarrow> graph_json option" where
  "demo_parse text =
     (if startsWith text ''doc:''
      then Some \<lparr> j_metadata = Some \<lparr> createdAt = None, updatedAt = None,
                                      projectPath = Some (drop 4 text) \<rparr>,
                  j_projectHash = None, j_nodes = None, j_edges = None, j_fileIndex = None \<rparr>
      else None)"

definition demo_stringify :: "graph_json \<Rightarrow> string" where
  "demo_stringify doc =
     ''doc:'' @ (case j_metadata doc of
                  None \<Rightarrow> []
                | Some m \<Rightarrow> (case projectPath m of None \<Rightarrow> [] | Some p \<Rightarrow> p))"

text \<open>
  \<open>toLowerCase\<close> as it acts on ASCII text, which is all the examples hold: the letters
  \<open>A..Z\<close> are folded, every other byte is kept.
\<close>

definition ascii_lower :: "string \<Rightarrow> string" where
  "ascii_lower s =
     map (\<lambda>c. let n = (of_char c :: nat)
              in if 65 \<le> n \<and> n \<le> 90 then char_of (n + 32) else c) s"

definition demo_env :: env where
  "demo_env =
     \<lparr> maxFileSize = 500,
       dbPath = ''./db'',
       path_dirname = (\<lambda>file. ''.''),
       path_join = demo_join,
       md5_hex = (\<lambda>s. if s = [] then ''d41d8cd98f00b204e9800998ecf8427e''
                       else if s = ''proj'' then ''4dc844abccfc0d132d087c1c7fcec557''
                       else ''0''),
       json_stringify = demo_stringify,
       json_parse = demo_parse,
       toLowerCase = ascii_lower \<rparr>"

text \<open>
  Four files in the order the glob returns them: \<open>a.ts\<close> and \<open>a.js\<close> both declare a function
  \<open>foo\<close>, \<open>a.js\<close> also a class \<open>Base\<close>; \<open>b.js\<close> imports \<open>foo\<close> from \<open>./a\<close>, calls it on line 2
  and declares \<open>Derived extends Base\<close>; \<open>big.js\<close> is over the size limit.
\<close>

definition demo_project :: "source_file list" where
  "demo_project =
     [\<lparr> sf_path = ''a.ts'', sf_readable = True, sf_size = 40,
        sf_parsed = \<lparr> pf_symbols = [plain_symbol ''function'' ''foo'' ''a.ts'' 9],
                      pf_imports = [], pf_exports = [] \<rparr> \<rparr>,
      \<lparr> sf_path = ''a.js'', sf_readable = True, sf_size = 90,
        sf_parsed = \<lparr> pf_symbols = [plain_symbol ''function'' ''foo'' ''a.js'' 1,
                                    plain_symbol ''class'' ''Base'' ''a.js'' 5],
                      pf_imports = [], pf_exports = [] \<rparr> \<rparr>,
      \<lparr> sf_path = ''b.js'', sf_readable = True, sf_size = 120,
        sf_parsed = \<lparr> pf_symbols = [plain_symbol ''call'' ''foo'' ''b.js'' 2,
                                    (plain_symbol ''class'' ''Derived'' ''b.js'' 4)
                                      \<lparr> sym_extends := Some ''Base'' \<rparr>],
                      pf_imports = [\<lparr> imp_source = ''./a'', imp_imported = ''foo'',
                                      imp_local = ''foo'', imp_line = 1 \<rparr>],
                      pf_exports = [] \<rparr> \<rparr>,
      \<lparr> sf_path = ''big.js'', sf_readable = True, sf_size = 600,
        sf_parsed = \<lparr> pf_symbols = [plain_symbol ''function'' ''huge'' ''big.js'' 1],
                      pf_imports = [], pf_exports = [] \<rparr> \<rparr>]"

definition empty_db :: fs_state where
  "empty_db = \<lparr> db_exists = False, db_readonly = False, db_files = [] \<rparr>"

text \<open>The global graph after \<open>buildCodeGraph('proj')\<close> on the example project.\<close>

definition demo_graph :: code_graph where
  "demo_graph = snd (snd (buildCodeGraph demo_env ''t0'' ''t1'' empty_db ''proj'' demo_project))"

text \<open>The import of \<open>b.js\<close>, and two cache directories: one holding the cache of \<open>proj\<close>,
  one holding a cache file of \<open>proj\<close> that is cut off.\<close>

definition demo_import :: import_fact where
  "demo_import = \<lparr> imp_source = ''./a'', imp_imported = ''foo'', imp_local = ''foo'', imp_line = 1 \<rparr>"

definition other_db :: fs_state where
  "other_db = \<lparr> db_exists = True, db_readonly = False,
                db_files = [(''graph_4dc844abccfc0d132d087c1c7fcec557.json'', ''doc:proj'')] \<rparr>"

definition broken_db :: fs_state where
  "broken_db = \<lparr> db_exists = True, db_readonly = False,
                 db_files = [(''graph_4dc844abccfc0d132d087c1c7fcec557.json'', ''{ nodes: ['')] \<rparr>"

section \<open>Properties\<close>

subsection \<open>Traversal: depth bound and single expansion\<close>

lemma fold_invariant:
  assumes "P s" and "\<And>x t. x \<in> set xs \<Longrightarrow> P t \<Longrightarrow> P (f x t)"
  shows "P (fold f xs s)"
  using assms by (induction xs arbitrary: s) auto

lemma traverse_expands_once:
  "expanded st = visited st \<Longrightarrow> distinct (visited st) \<Longrightarrow>
   expanded (traverse g direction depth nodeId currentDepth st) =
     visited (traverse g direction depth nodeId currentDepth st) \<and>
   distinct (visited (traverse g direction depth nodeId currentDepth st))"
proof (induction g direction depth nodeId currentDepth st rule: traverse.induct)
  case (1 g direction depth nodeId currentDepth st)
  let ?I = "\<lambda>s::trav. expanded s = visited s \<and> distinct (visited s)"
  show ?case
  proof (cases "depth < int currentDepth \<or> nodeId \<in> set (visited st)")
    case True
    then show ?thesis using "1.prems" by (simp add: traverse.simps)
  next
    case False
    define st1 where "st1 = st\<lparr>visited := set_add (visited st) nodeId, expanded := expanded st @ [nodeId]\<rparr>"
    define st2 where "st2 = (if follows_out direction
          then fold (\<lambda>edge s. traverse g direction depth (fst edge) (currentDepth + 1)
                     (push_result (out_record g nodeId edge) s)) (members (edges g) nodeId) st1
          else st1)"
    have I1: "?I st1" using "1.prems" False by (simp add: st1_def set_add_def)
    have I2: "?I st2"
    proof (cases "follows_out direction")
      case True
      have "?I (fold (\<lambda>edge s. traverse g direction depth (fst edge) (currentDepth + 1)
                     (push_result (out_record g nodeId edge) s)) (members (edges g) nodeId) st1)"
      proof (rule fold_invariant[where P = ?I, OF I1])
        fix x and t :: trav
        assume x: "x \<in> set (members (edges g) nodeId)" and t: "?I t"
        have "?I (push_result (out_record g nodeId x) t)"
          using t by (simp add: push_result_def)
        then show "?I (traverse g direction depth (fst x) (currentDepth + 1)
                     (push_result (out_record g nodeId x) t))"
          using "1.IH"(1)[OF False st1_def True x] by blast
      qed
      then show ?thesis using True by (simp add: st2_def)
    next
      case False
      then show ?thesis using I1 by (simp add: st2_def)
    qed
    have I3: "?I (if follows_in direction
            then fold (\<lambda>edge s. traverse g direction depth (fst edge) (currentDepth + 1)
                                   (push_result (in_record g nodeId edge) s))
                      (members (reverseEdges g) nodeId) st2
            else st2)"
    proof (cases "follows_in direction")
      case True
      have "?I (fold (\<lambda>edge s. traverse g direction depth (fst edge) (currentDepth + 1)
                     (push_result (in_record g nodeId edge) s)) (members (reverseEdges g) nodeId) st2)"
      proof (rule fold_invariant[where P = ?I, OF I2])
        fix x and t :: trav
        assume x: "x \<in> set (members (reverseEdges g) nodeId)" and t: "?I t"
        have "?I (push_result (in_record g nodeId x) t)"
          using t by (simp add: push_result_def)
        then show "?I (traverse g direction depth (fst x) (currentDepth + 1)
                     (push_result (in_record g nodeId x) t))"
          using "1.IH"(2)[OF False st1_def st2_def True x] by blast
      qed
      then show ?thesis using True by simp
    next
      case False
      then show ?thesis using I2 by simp
    qed
    have unfolded: "traverse g direction depth nodeId currentDepth st =
            (if follows_in direction
             then fold (\<lambda>edge s. traverse g direction depth (fst edge) (currentDepth + 1)
                                   (push_result (in_record g nodeId edge) s))
                      (members (reverseEdges g) nodeId) st2
             else st2)"
      using False by (subst traverse.simps) (simp add: Let_def st1_def st2_def)
    show ?thesis
      unfolding unfolded using I3 by blast
  qed
qed

lemmas graph_eval = getConnections_def run_traverse_def traverse.simps addEdge_def addNode_def
  new_CodeGraph_def push_member_def ensure_key_def members_def map_has_def follows_out_def
  follows_in_def set_add_def push_result_def out_record_def in_record_def

text \<open>
  Claim C1 asks that \<open>getConnections(id, direction, d)\<close> return no edge that lies more than
  \<open>d\<close> hops from the start node, and no edge at all for depth 0. The code does not keep
  to it: the guard of \<open>traverse\<close> is \<open>currentDepth > depth\<close>, so the nodes at traversal depth
  \<open>d\<close> still have their edges pushed. On the chain \<open>a \<rightarrow> b \<rightarrow> c\<close>, depth 0 returns the
  edge \<open>a \<rightarrow> b\<close> although \<open>b\<close> is not within 0 hops of \<open>a\<close>, and depth 1 returns the edge
  \<open>b \<rightarrow> c\<close> as well although \<open>c\<close> is not within 1 hop of \<open>a\<close>.
\<close>

theorem getConnections_one_hop_beyond_depth:
  "getConnections chain_graph ''a'' ''outgoing'' 0 =
     [\<lparr>c_from = ''a'', c_to = ''b'', c_type = ''calls'', fromData = None, toData = None\<rparr>] \<and>
   \<not> within_hops chain_graph ''outgoing'' 0 ''a'' ''b'' \<and>
   visited (run_traverse chain_graph ''a'' ''outgoing'' 0) = [''a''] \<and>
   getConnections chain_graph ''a'' ''outgoing'' 1 =
     [\<lparr>c_from = ''a'', c_to = ''b'', c_type = ''calls'', fromData = None, toData = None\<rparr>,
      \<lparr>c_from = ''b'', c_to = ''c'', c_type = ''calls'', fromData = None, toData = None\<rparr>] \<and>
   within_hops chain_graph ''outgoing'' 1 ''a'' ''b'' \<and>
   \<not> within_hops chain_graph ''outgoing'' 1 ''a'' ''c'' \<and>
   within_hops chain_graph ''outgoing'' 2 ''a'' ''c''"
  by code_simp

text \<open>
  Claim C4. \<open>traverse\<close> is a total function (its recursion is bounded by the depth, whatever
  cycles the store has), and in every call of \<open>getConnections\<close> no node id has its edges
  enumerated twice: the log of expansions has no repetition and is the visited set.
\<close>

theorem getConnections_expands_once:
  "distinct (expanded (run_traverse g ident direction depth)) \<and>
   expanded (run_traverse g ident direction depth) = visited (run_traverse g ident direction depth)"
  using traverse_expands_once[of "\<lparr>visited = [], result = [], expanded = []\<rparr>" g direction depth ident 0]
  by (simp add: run_traverse_def)

text \<open>A two-class \<open>extends\<close> cycle, traversed to depth 5: each class is expanded once.\<close>

theorem getConnections_expands_once_witness:
  "expanded (run_traverse cycle_graph ''a'' ''outgoing'' 5) = [''a'', ''b''] \<and>
   distinct (expanded (run_traverse cycle_graph ''a'' ''outgoing'' 5))"
  using getConnections_expands_once[of cycle_graph "''a''" "''outgoing''" 5]
  by (simp add: cycle_graph_def graph_eval)

subsection \<open>Search: matches and ranking\<close>

lemma mset_insert_sorted: "mset (insert_sorted cmp x ys) = add_mset x (mset ys)"
  by (induction ys) auto

lemma mset_array_sort: "mset (array_sort cmp xs) = mset xs"
  by (induction xs) (auto simp: array_sort_def mset_insert_sorted)

lemma set_insert_sorted: "set (insert_sorted cmp x ys) = insert x (set ys)"
  by (induction ys) auto

lemma sorted_insert_sorted:
  "sorted_wrt (\<lambda>a b. score b \<le> score a) ys \<Longrightarrow>
   sorted_wrt (\<lambda>a b. score b \<le> score a) (insert_sorted (\<lambda>a b. score b - score a) x ys)"
  by (induction ys) (auto simp: set_insert_sorted)

lemma sorted_array_sort:
  "sorted_wrt (\<lambda>a b. score b \<le> score a) (array_sort (\<lambda>a b. score b - score a) xs)"
  by (induction xs) (auto simp: array_sort_def sorted_insert_sorted)



lemma fold_search_step:
  "fold (search_step e query ty) ns acc = acc @ map (hit_of e query) (filter (matching e query ty) ns)"
  by (induction ns arbitrary: acc)
     (auto simp: search_step_def hit_of_def matching_def passes_filter_def Let_def)

lemma take_is_prefix: "(take (length q) xs = q) = (\<exists>r. xs = q @ r)"
  by (metis append_eq_conv_conj append_take_drop_id)

lemma includes_str_iff: "includes_str s q = (\<exists>p r. s = p @ q @ r)"
proof (induction s)
  case Nil
  then show ?case by simp
next
  case (Cons c s)
  show ?case
  proof
    assume "includes_str (c # s) q"
    then consider "take (length q) (c # s) = q" | "includes_str s q" by auto
    then show "\<exists>p r. c # s = p @ q @ r"
    proof cases
      case 1
      then obtain r where "c # s = q @ r" using take_is_prefix[of q "c # s"] by blast
      then have "c # s = [] @ q @ r" by simp
      then show ?thesis by blast
    next
      case 2
      then obtain p r where "s = p @ q @ r" using Cons.IH by blast
      then have "c # s = (c # p) @ q @ r" by simp
      then show ?thesis by blast
    qed
  next
    assume "\<exists>p r. c # s = p @ q @ r"
    then obtain p r where pr: "c # s = p @ q @ r" by blast
    show "includes_str (c # s) q"
    proof (cases p)
      case Nil
      then have "take (length q) (c # s) = q" using pr take_is_prefix[of q "c # s"] by auto
      then show ?thesis by simp
    next
      case (Cons a p')
      then have "s = p' @ q @ r" using pr by simp
      then have "includes_str s q" using Cons.IH by blast
      then show ?thesis by simp
    qed
  qed
qed

text \<open>
  Claim C8. Whatever \<open>toLowerCase\<close> of the platform is, \<open>searchNodes\<close> returns, in some
  order, one element for every node that passes the type filter and whose lower-cased name
  or file path contains the lower-cased query, with
  score 2 when the name matches and 1 when only the file path does; the result is in
  descending score order, so every element whose name matches stands before every element
  that matched by its file path only.
\<close>

theorem searchNodes_ranking:
  "mset (searchNodes e g query ty) =
     mset (map (hit_of e query) (filter (matching e query ty) (nodes g))) \<and>
   name_match e query node =
     (\<exists>p r. toLowerCase e (sym_name node) = p @ toLowerCase e query @ r) \<and>
   file_match e query node =
     (\<exists>p r. toLowerCase e (sym_file node) = p @ toLowerCase e query @ r) \<and>
   sorted_wrt (\<lambda>a b. score b \<le> score a) (searchNodes e g query ty) \<and>
   (\<forall>i j. i < length (searchNodes e g query ty) \<and> j < length (searchNodes e g query ty) \<and>
      name_match e query (hit_node (searchNodes e g query ty ! i)) \<and>
      \<not> name_match e query (hit_node (searchNodes e g query ty ! j)) \<longrightarrow> i < j)"
proof -
  let ?r = "searchNodes e g query ty"
  have m: "mset ?r = mset (map (hit_of e query) (filter (matching e query ty) (nodes g)))"
    by (simp add: searchNodes_def mset_array_sort fold_search_step)
  have s: "sorted_wrt (\<lambda>a b. score b \<le> score a) ?r"
    by (simp add: searchNodes_def sorted_array_sort)
  have sc: "score h = (if name_match e query (hit_node h) then 2 else 1)" if "h \<in> set ?r" for h
  proof -
    from that have "h \<in># mset ?r" by simp
    then have "h \<in> set (map (hit_of e query) (filter (matching e query ty) (nodes g)))"
      unfolding m by simp
    then show ?thesis by (auto simp: hit_of_def)
  qed
  have r: "i < j" if "i < length ?r" "j < length ?r" "name_match e query (hit_node (?r ! i))"
      "\<not> name_match e query (hit_node (?r ! j))" for i j
  proof (rule ccontr)
    assume "\<not> i < j"
    moreover have "i \<noteq> j" using that by auto
    ultimately have "j < i" by simp
    then have "score (?r ! i) \<le> score (?r ! j)"
      using s that(1) by (simp add: sorted_wrt_iff_nth_less)
    moreover have "score (?r ! i) = 2" using sc[of "?r ! i"] that by simp
    moreover have "score (?r ! j) = 1" using sc[of "?r ! j"] that by simp
    ultimately show False by simp
  qed
  have nm: "name_match e query node =
      (\<exists>p r. toLowerCase e (sym_name node) = p @ toLowerCase e query @ r)"
    by (simp add: name_match_def includes_str_iff)
  have fm: "file_match e query node =
      (\<exists>p r. toLowerCase e (sym_file node) = p @ toLowerCase e query @ r)"
    by (simp add: file_match_def includes_str_iff)
  show ?thesis using m s r nm fm by blast
qed

text \<open>
  The query \<open>FOO\<close> on the example store: the function \<open>Foo\<close>, added last, comes first with
  score 2; the variable of \<open>foo/b.js\<close> follows with score 1.
\<close>

theorem searchNodes_ranking_witness:
  "searchNodes demo_env search_graph ''FOO'' None =
     [\<lparr> hit_id = ''lib/util.js:Foo:3'',
         hit_node = plain_symbol ''function'' ''Foo'' ''lib/util.js'' 3, score = 2 \<rparr>,
      \<lparr> hit_id = ''foo/b.js:bar:7'',
         hit_node = plain_symbol ''variable'' ''bar'' ''foo/b.js'' 7, score = 1 \<rparr>] \<and>
   name_match demo_env ''FOO'' (hit_node (searchNodes demo_env search_graph ''FOO'' None ! 0)) \<and>
   \<not> name_match demo_env ''FOO'' (hit_node (searchNodes demo_env search_graph ''FOO'' None ! 1)) \<and>
   file_match demo_env ''FOO'' (hit_node (searchNodes demo_env search_graph ''FOO'' None ! 1)) \<and>
   (0 :: nat) < 1"
proof -
  have r: "searchNodes demo_env search_graph ''FOO'' None =
     [\<lparr> hit_id = ''lib/util.js:Foo:3'',
         hit_node = plain_symbol ''function'' ''Foo'' ''lib/util.js'' 3, score = 2 \<rparr>,
      \<lparr> hit_id = ''foo/b.js:bar:7'',
         hit_node = plain_symbol ''variable'' ''bar'' ''foo/b.js'' 7, score = 1 \<rparr>]"
    by code_simp
  have a: "name_match demo_env ''FOO'' (plain_symbol ''function'' ''Foo'' ''lib/util.js'' 3)"
    by code_simp
  have b: "\<not> name_match demo_env ''FOO'' (plain_symbol ''variable'' ''bar'' ''foo/b.js'' 7)"
    by code_simp
  have c: "file_match demo_env ''FOO'' (plain_symbol ''variable'' ''bar'' ''foo/b.js'' 7)"
    by code_simp
  from searchNodes_ranking[of demo_env search_graph "''FOO''" None] r a b c
  show ?thesis by simp
qed

subsection \<open>Serialisation round trip\<close>

lemma map_set_fresh: "k \<notin> fst ` set m \<Longrightarrow> map_set m k v = m @ [(k, v)]"
  by (induction m) auto

lemma map_of_map_set: "map_of (map_set m k v) k' = (if k' = k then Some v else map_of m k')"
  by (induction m) auto

lemma keys_map_set:
  "map fst (map_set m k v) = (if k \<in> fst ` set m then map fst m else map fst m @ [k])"
  by (induction m) auto

lemma map_wf_map_set: "map_wf m \<Longrightarrow> map_wf (map_set m k v)"
  by (auto simp: map_wf_def keys_map_set)

lemma map_has_iff: "map_has m k = (k \<in> fst ` set m)"
  by (simp add: map_has_def map_of_eq_None_iff)

lemma map_wf_ensure_key: "map_wf m \<Longrightarrow> map_wf (ensure_key m k)"
  by (simp add: ensure_key_def map_wf_map_set)

lemma map_wf_push_member: "map_wf m \<Longrightarrow> map_wf (push_member m k e)"
  by (simp add: push_member_def map_wf_map_set)

lemma fold_map_set_fresh:
  "distinct (map fst (acc @ xs)) \<Longrightarrow> fold (\<lambda>p m. map_set m (fst p) (snd p)) xs acc = acc @ xs"
proof (induction xs arbitrary: acc)
  case Nil
  then show ?case by simp
next
  case (Cons x xs)
  have fresh: "fst x \<notin> fst ` set acc" using Cons.prems by auto
  have "distinct (map fst ((acc @ [x]) @ xs))" using Cons.prems by simp
  from Cons.IH[OF this] show ?case by (simp add: map_set_fresh[OF fresh])
qed

lemma new_Set_distinct_aux:
  "distinct (acc @ xs) \<Longrightarrow> fold (\<lambda>x s. set_add s x) xs acc = acc @ xs"
proof (induction xs arbitrary: acc)
  case Nil
  then show ?case by simp
next
  case (Cons x xs)
  have "distinct ((acc @ [x]) @ xs)" using Cons.prems by simp
  from Cons.IH[OF this] show ?case using Cons.prems by (simp add: set_add_def)
qed

lemma new_Set_distinct: "distinct xs \<Longrightarrow> new_Set xs = xs"
  using new_Set_distinct_aux[of "[]" xs] by (simp add: new_Set_def)

lemma flat_append: "flat (a @ b) = flat a @ flat b" by (simp add: flat_def)

lemma flat_ensure_key: "flat (ensure_key m k) = flat m"
  by (auto simp: ensure_key_def map_has_iff map_set_fresh flat_def)


lemma flat_map_set_present:
  "distinct (map fst m) \<Longrightarrow> map_of m k = Some es \<Longrightarrow>
   mset (flat (map_set m k (es @ [e]))) = add_mset (k, e) (mset (flat m))"
proof (induction m)
  case Nil
  then show ?case by simp
next
  case (Cons p m)
  show ?case
  proof (cases "fst p = k")
    case True
    then have "snd p = es" using Cons.prems(2) by (cases p) auto
    then show ?thesis using True by (cases p) (simp add: flat_def)
  next
    case False
    then have "map_of m k = Some es" using Cons.prems(2) by (cases p) auto
    moreover have "distinct (map fst m)" using Cons.prems(1) by simp
    ultimately have "mset (flat (map_set m k (es @ [e]))) = add_mset (k, e) (mset (flat m))"
      by (rule Cons.IH[rotated])
    then show ?thesis using False by (simp add: flat_def)
  qed
qed

lemma flat_push_member:
  assumes "map_wf m"
  shows "mset (flat (push_member (ensure_key m k) k e)) = add_mset (k, e) (mset (flat m))"
proof (cases "map_of m k")
  case None
  then have fresh: "k \<notin> fst ` set m" by (simp add: map_of_eq_None_iff)
  have "ensure_key m k = m @ [(k, [])]"
    using None fresh by (simp add: ensure_key_def map_has_def map_set_fresh)
  moreover have "map_set (m @ [(k, [])]) k [e] = m @ [(k, [e])]"
    using fresh by (induction m) auto
  moreover have "members (m @ [(k, [])]) k = []"
    using None by (simp add: members_def map_add_def split: option.splits)
  ultimately show ?thesis by (simp add: push_member_def flat_def)
next
  case (Some es)
  then have "ensure_key m k = m" by (simp add: ensure_key_def map_has_def)
  then show ?thesis
    using flat_map_set_present[OF _ Some, of e] assms Some
    by (simp add: push_member_def members_def map_wf_def)
qed


lemma edgesArray_flat: "edgesArray g = flat (edges g)"
  by (simp add: edgesArray_def flat_def)

lemma fold_load_node_nodes:
  "nodes (fold load_node xs g) = fold (\<lambda>p m. map_set m (fst p) (snd p)) xs (nodes g)"
  by (induction xs arbitrary: g) (simp_all add: load_node_def)

lemma fold_load_node_edges:
  "edges (fold load_node xs g) = fold (\<lambda>p m. ensure_key m (fst p)) xs (edges g)"
  by (induction xs arbitrary: g) (simp_all add: load_node_def)

lemma fold_load_node_fileIndex: "fileIndex (fold load_node xs g) = fileIndex g"
  by (induction xs arbitrary: g) (simp_all add: load_node_def)

lemma fold_load_edge_nodes: "nodes (fold load_edge xs g) = nodes g"
  by (induction xs arbitrary: g) (simp_all add: load_edge_def Let_def)

lemma fold_load_edge_fileIndex: "fileIndex (fold load_edge xs g) = fileIndex g"
  by (induction xs arbitrary: g) (simp_all add: load_edge_def Let_def)

lemma fold_load_edge_edges:
  "edges (fold load_edge xs g) =
     fold (\<lambda>e m. push_member (ensure_key m (fst e)) (fst e) (snd e)) xs (edges g)"
  by (induction xs arbitrary: g) (simp_all add: load_edge_def Let_def)

lemma fold_load_file_nodes: "nodes (fold load_file_entry xs g) = nodes g"
  by (induction xs arbitrary: g) (simp_all add: load_file_entry_def)

lemma fold_load_file_edges: "edges (fold load_file_entry xs g) = edges g"
  by (induction xs arbitrary: g) (simp_all add: load_file_entry_def)

lemma fold_load_file_fileIndex:
  "fileIndex (fold load_file_entry xs g) =
     fold (\<lambda>e m. map_set m (fst e) (new_Set (snd e))) xs (fileIndex g)"
  by (induction xs arbitrary: g) (simp_all add: load_file_entry_def)

lemma fold_ensure_key_empty:
  "map_wf m \<Longrightarrow> flat m = [] \<Longrightarrow>
   map_wf (fold (\<lambda>p m. ensure_key m (fst p)) xs m) \<and>
   flat (fold (\<lambda>p m. ensure_key m (fst p)) xs m) = []"
  by (induction xs arbitrary: m) (simp_all add: map_wf_ensure_key flat_ensure_key)

lemma fold_push_member_flat:
  "map_wf m \<Longrightarrow>
   mset (flat (fold (\<lambda>e m. push_member (ensure_key m (fst e)) (fst e) (snd e)) xs m)) =
     mset (flat m) + mset xs"
proof (induction xs arbitrary: m)
  case Nil
  then show ?case by simp
next
  case (Cons x xs)
  have "map_wf (push_member (ensure_key m (fst x)) (fst x) (snd x))"
    using Cons.prems by (simp add: map_wf_push_member map_wf_ensure_key)
  from Cons.IH[OF this] show ?case
    using flat_push_member[OF Cons.prems, of "fst x" "snd x"] by simp
qed

lemma fold_file_entries:
  assumes "distinct (map fst xs)" and "list_all (\<lambda>entry. distinct (snd entry)) xs"
  shows "fold (\<lambda>e m. map_set m (fst e) (new_Set (snd e))) xs [] = xs"
proof -
  have "fold (\<lambda>e m. map_set m (fst e) (new_Set (snd e))) xs [] =
        fold (\<lambda>p m. map_set m (fst p) (snd p)) xs []"
    using assms(2) by (intro fold_cong) (auto simp: list_all_iff new_Set_distinct)
  then show ?thesis using fold_map_set_fresh[of "[]" xs] assms(1) by simp
qed

lemma list_all_map_set:
  "list_all P m \<Longrightarrow> P (k, v) \<Longrightarrow> list_all P (map_set m k v)"
  by (induction m) auto

lemma distinct_members:
  "list_all (\<lambda>entry. distinct (snd entry)) m \<Longrightarrow> distinct (members m k)"
  by (auto simp: members_def list_all_iff split: option.splits dest!: map_of_SomeD)

lemma store_wf_new: "store_wf (new_CodeGraph now)"
  by (simp add: store_wf_def map_wf_def new_CodeGraph_def)

lemma store_wf_addNode: "store_wf g \<Longrightarrow> store_wf (addNode g ident data)"
  by (auto simp: store_wf_def addNode_def map_wf_map_set map_wf_ensure_key set_add_def
      intro!: list_all_map_set dest: distinct_members)

lemma store_wf_addEdge: "store_wf g \<Longrightarrow> store_wf (addEdge g from to ty)"
  by (simp add: store_wf_def addEdge_def map_wf_push_member map_wf_ensure_key)

text \<open>
  Claim C3. For every store (its maps holding each key once and its file sets each id once,
  as \<open>Map\<close> and \<open>Set\<close> do), \<open>fromJSON(toJSON(S))\<close> has the node map and the file index of
  \<open>S\<close>, entry for entry, and the same edges as a multiset.
\<close>

theorem fromJSON_toJSON_roundtrip:
  assumes "store_wf g"
  shows "nodes (fromJSON now (toJSON g)) = nodes g \<and>
         mset (edgesArray (fromJSON now (toJSON g))) = mset (edgesArray g) \<and>
         fileIndex (fromJSON now (toJSON g)) = fileIndex g"
proof -
  let ?g0 = "(new_CodeGraph now)\<lparr>metadata := metadata g, projectHash := projectHash g\<rparr>"
  let ?g1 = "fold load_node (nodes g) ?g0"
  let ?g2 = "fold load_edge (edgesArray g) ?g1"
  let ?g3 = "fold load_file_entry (fileIndex g) ?g2"
  have unfolded: "fromJSON now (toJSON g) = ?g3"
    by (simp add: fromJSON_def toJSON_def or_empty_def Let_def)
  have n: "nodes ?g3 = nodes g"
    using assms fold_map_set_fresh[of "[]" "nodes g"]
    by (simp add: fold_load_file_nodes fold_load_edge_nodes fold_load_node_nodes
        new_CodeGraph_def store_wf_def map_wf_def)
  have e1: "map_wf (edges ?g1) \<and> flat (edges ?g1) = []"
    unfolding fold_load_node_edges
    by (rule fold_ensure_key_empty) (simp_all add: new_CodeGraph_def map_wf_def flat_def)
  have e: "mset (edgesArray ?g3) = mset (edgesArray g)"
    using e1 fold_push_member_flat[of "edges ?g1" "edgesArray g"]
    by (simp add: edgesArray_flat fold_load_file_edges fold_load_edge_edges)
  have f: "fileIndex ?g3 = fileIndex g"
    using assms fold_file_entries[of "fileIndex g"]
    by (simp add: fold_load_file_fileIndex fold_load_edge_fileIndex fold_load_node_fileIndex
        new_CodeGraph_def store_wf_def map_wf_def)
  show ?thesis unfolding unfolded using n e f by blast
qed

text \<open>
  The example store satisfies the invariant and is restored; its edges come back in
  another order, which is why they are compared as a multiset.
\<close>

theorem fromJSON_toJSON_roundtrip_witness:
  "store_wf saved_graph \<and>
   nodes (fromJSON ''u'' (toJSON saved_graph)) = nodes saved_graph \<and>
   mset (edgesArray (fromJSON ''u'' (toJSON saved_graph))) = mset (edgesArray saved_graph) \<and>
   fileIndex (fromJSON ''u'' (toJSON saved_graph)) = fileIndex saved_graph \<and>
   edgesArray (fromJSON ''u'' (toJSON saved_graph)) \<noteq> edgesArray saved_graph"
proof -
  have wf: "store_wf saved_graph"
    unfolding saved_graph_def by (intro store_wf_addEdge store_wf_addNode store_wf_new)
  have ne: "edgesArray (fromJSON ''u'' (toJSON saved_graph)) \<noteq> edgesArray saved_graph"
    by code_simp
  from fromJSON_toJSON_roundtrip[OF wf, of "''u''"] wf ne show ?thesis by blast
qed

subsection \<open>The build: end points of the edges\<close>

lemma nodes_addEdge: "nodes (addEdge g a b t) = nodes g"
  by (simp add: addEdge_def)

lemma set_flat_map_set_present:
  "map_of m k = Some es \<Longrightarrow>
   set (flat (map_set m k (es @ [e]))) = insert (k, e) (set (flat m))"
proof (induction m)
  case Nil
  then show ?case by simp
next
  case (Cons p m)
  show ?case
  proof (cases "fst p = k")
    case True
    then have "snd p = es" using Cons.prems by (cases p) auto
    then show ?thesis using True by (cases p) (auto simp: flat_def)
  next
    case False
    then have "map_of m k = Some es" using Cons.prems by (cases p) auto
    from Cons.IH[OF this] show ?thesis using False by (auto simp: flat_def)
  qed
qed

lemma set_flat_push_member:
  "set (flat (push_member (ensure_key m k) k e)) = insert (k, e) (set (flat m))"
proof (cases "map_of m k")
  case None
  then have fresh: "k \<notin> fst ` set m" by (simp add: map_of_eq_None_iff)
  have "ensure_key m k = m @ [(k, [])]"
    using None fresh by (simp add: ensure_key_def map_has_def map_set_fresh)
  moreover have "map_set (m @ [(k, [])]) k [e] = m @ [(k, [e])]"
    using fresh by (induction m) auto
  moreover have "members (m @ [(k, [])]) k = []"
    using None by (simp add: members_def map_add_def split: option.splits)
  ultimately show ?thesis by (simp add: push_member_def flat_def)
next
  case (Some es)
  then have "ensure_key m k = m" by (simp add: ensure_key_def map_has_def)
  then show ?thesis
    using set_flat_map_set_present[OF Some, of e] Some
    by (simp add: push_member_def members_def)
qed

lemma set_edgesArray_addEdge:
  "set (edgesArray (addEdge g a b t)) = insert (a, b, t) (set (edgesArray g))"
  by (simp add: edgesArray_flat addEdge_def set_flat_push_member)

lemma edgesArray_addNode: "edgesArray (addNode g i d) = edgesArray g"
  by (simp add: edgesArray_flat addNode_def flat_ensure_key)

lemma map_has_map_set: "map_has (map_set m k v) k' = (k' = k \<or> map_has m k')"
  by (auto simp: map_has_def map_of_map_set)

lemma has_node_addNode: "map_has (nodes (addNode g i d)) k = (k = i \<or> map_has (nodes g) k)"
  by (simp add: addNode_def map_has_map_set)

lemma set_map_set_subset: "set (map_set m k v) \<subseteq> insert (k, v) (set m)"
  by (induction m) auto

lemma add_symbols_Cons:
  "add_symbols f (s # syms) g =
     add_symbols f syms (if sym_type s \<noteq> ''call''
                         then addNode g (node_id f (sym_name s) (sym_line s)) s else g)"
  by (simp add: add_symbols_def)

lemma add_symbols_keeps: "map_has (nodes g) k \<Longrightarrow> map_has (nodes (add_symbols f syms g)) k"
  by (induction syms arbitrary: g) (simp_all add: add_symbols_def has_node_addNode)

lemma add_symbols_declares:
  "s \<in> set syms \<Longrightarrow> sym_type s \<noteq> ''call'' \<Longrightarrow>
   map_has (nodes (add_symbols f syms g)) (node_id f (sym_name s) (sym_line s))"
proof (induction syms arbitrary: g)
  case Nil
  then show ?case by simp
next
  case (Cons x syms)
  show ?case
  proof (cases "s = x")
    case True
    then show ?thesis
      using Cons.prems(2) by (simp add: add_symbols_Cons add_symbols_keeps has_node_addNode)
  next
    case False
    then have "s \<in> set syms" using Cons.prems(1) by simp
    from Cons.IH[OF this Cons.prems(2)] show ?thesis by (simp add: add_symbols_Cons)
  qed
qed

lemma add_symbols_edges: "edgesArray (add_symbols f syms g) = edgesArray g"
  by (induction syms arbitrary: g) (simp_all add: add_symbols_def edgesArray_addNode)

lemma declared_iff:
  "declared fd g =
     (\<forall>entry \<in> set fd. \<forall>s \<in> set (pf_symbols (snd entry)). sym_type s \<noteq> ''call'' \<longrightarrow>
        map_has (nodes g) (node_id (fst entry) (sym_name s) (sym_line s)))"
  by (auto simp: declared_def list_all_iff)

lemma parse_file_inv:
  assumes "declared (fst st) (snd st)" and "edgesArray (snd st) = []"
  shows "declared (fst (parse_file e sf st)) (snd (parse_file e sf st)) \<and>
         edgesArray (snd (parse_file e sf st)) = []"
proof (cases "sf_readable sf \<and> \<not> sf_size sf > maxFileSize e")
  case False
  then show ?thesis using assms by (auto simp: parse_file_def)
next
  case True
  let ?g = "add_symbols (sf_path sf) (pf_symbols (sf_parsed sf)) (snd st)"
  have eq: "parse_file e sf st = (map_set (fst st) (sf_path sf) (sf_parsed sf), ?g)"
    using True by (simp add: parse_file_def)
  have "declared (map_set (fst st) (sf_path sf) (sf_parsed sf)) ?g"
    unfolding declared_iff
  proof (intro ballI impI)
    fix entry s
    assume en: "entry \<in> set (map_set (fst st) (sf_path sf) (sf_parsed sf))"
      and s: "s \<in> set (pf_symbols (snd entry))" and ty: "sym_type s \<noteq> ''call''"
    from en set_map_set_subset consider "entry = (sf_path sf, sf_parsed sf)" | "entry \<in> set (fst st)"
      by fastforce
    then show "map_has (nodes ?g) (node_id (fst entry) (sym_name s) (sym_line s))"
    proof cases
      case 1
      then show ?thesis using add_symbols_declares[of s "pf_symbols (sf_parsed sf)"] s ty by simp
    next
      case 2
      then have "map_has (nodes (snd st)) (node_id (fst entry) (sym_name s) (sym_line s))"
        using assms(1) s ty by (auto simp: declared_iff)
      then show ?thesis by (rule add_symbols_keeps)
    qed
  qed
  then show ?thesis using assms(2) by (simp add: eq add_symbols_edges)
qed

lemma parse_files_inv:
  "declared (fst (parse_files e now files)) (snd (parse_files e now files)) \<and>
   edgesArray (snd (parse_files e now files)) = []"
  unfolding parse_files_def
proof (rule fold_invariant[where P = "\<lambda>st. declared (fst st) (snd st) \<and> edgesArray (snd st) = []"])
  show "declared (fst ([], new_CodeGraph now)) (snd ([], new_CodeGraph now)) \<and>
        edgesArray (snd ([], new_CodeGraph now)) = []"
    by (simp add: declared_def new_CodeGraph_def edgesArray_def)
next
  fix x t
  assume "declared (fst t) (snd t) \<and> edgesArray (snd t) = []"
  then show "declared (fst (parse_file e x t)) (snd (parse_file e x t)) \<and>
             edgesArray (snd (parse_file e x t)) = []"
    using parse_file_inv by blast
qed

lemma build_inv_addEdge:
  assumes "build_inv N g" and "map_has (nodes g) b"
    and "(t = ''imports'' \<and> (\<exists>file ln. a = import_site file ln)) \<or>
         (t = ''calls'' \<and> (\<exists>file ln. a = call_site file ln)) \<or>
         (t = ''extends'' \<and> map_has N a)"
  shows "build_inv N (addEdge g a b t)"
  using assms by (auto simp: build_inv_def nodes_addEdge set_edgesArray_addEdge edge_ok_def)

lemma link_import_inv:
  "build_inv N g \<Longrightarrow> build_inv N (link_import file imp p td g)"
  unfolding link_import_def
  by (rule fold_invariant[where P = "build_inv N"])
     (auto simp: Let_def intro!: build_inv_addEdge)

lemma try_files_inv:
  "build_inv N g \<Longrightarrow> build_inv N (try_files fd file imp cs g)"
  by (induction cs) (auto simp: Let_def link_import_inv split: option.splits)

lemma connect_import_inv:
  "build_inv N g \<Longrightarrow> build_inv N (connect_import e fd file imp g)"
  by (simp add: connect_import_def try_files_inv)

lemma connect_call_inv:
  "build_inv N g \<Longrightarrow> build_inv N (connect_call fd file symbol g)"
  unfolding connect_call_def Let_def
  by (rule fold_invariant[where P = "build_inv N"], assumption,
      rule fold_invariant[where P = "build_inv N"])
     (auto intro!: build_inv_addEdge)

lemma connect_extends_inv:
  "build_inv N g \<Longrightarrow> map_has N (node_id file (sym_name symbol) (sym_line symbol)) \<Longrightarrow>
   build_inv N (connect_extends fd file symbol g)"
  unfolding connect_extends_def Let_def
  by (rule fold_invariant[where P = "build_inv N"], assumption,
      rule fold_invariant[where P = "build_inv N"])
     (auto intro!: build_inv_addEdge)

lemma connect_file_inv:
  assumes "build_inv N g"
    and "\<forall>s \<in> set (pf_symbols (snd entry)). sym_type s \<noteq> ''call'' \<longrightarrow>
           map_has N (node_id (fst entry) (sym_name s) (sym_line s))"
  shows "build_inv N (connect_file e fd entry g)"
proof -
  let ?g1 = "fold (connect_import e fd (fst entry)) (pf_imports (snd entry)) g"
  let ?g2 = "fold (\<lambda>symbol g. if sym_type symbol = ''call''
                                then connect_call fd (fst entry) symbol g else g)
                   (pf_symbols (snd entry)) ?g1"
  have 1: "build_inv N ?g1"
    by (rule fold_invariant[where P = "build_inv N"]) (simp_all add: assms(1) connect_import_inv)
  have 2: "build_inv N ?g2"
    by (rule fold_invariant[where P = "build_inv N"]) (simp_all add: 1 connect_call_inv)
  have "build_inv N (fold (\<lambda>symbol g. if sym_type symbol = ''class'' \<and> truthy (sym_extends symbol)
                            then connect_extends fd (fst entry) symbol g else g)
              (pf_symbols (snd entry)) ?g2)"
    by (rule fold_invariant[where P = "build_inv N"]) (use 2 assms(2) in \<open>auto intro!: connect_extends_inv\<close>)
  then show ?thesis by (simp add: connect_file_def Let_def)
qed

lemma build_graph_inv:
  "build_inv (nodes (snd (parse_files e now files))) (build_graph e now files)"
proof -
  let ?st = "parse_files e now files"
  let ?N = "nodes (snd ?st)"
  have d: "declared (fst ?st) (snd ?st)" and e0: "edgesArray (snd ?st) = []"
    using parse_files_inv by blast+
  have start: "build_inv ?N (snd ?st)" using e0 by (simp add: build_inv_def)
  have "build_inv ?N (fold (connect_file e (fst ?st)) (fst ?st) (snd ?st))"
  proof (rule fold_invariant[where P = "build_inv ?N", OF start])
    fix x t assume "x \<in> set (fst ?st)" "build_inv ?N t"
    then show "build_inv ?N (connect_file e (fst ?st) x t)"
      using d by (intro connect_file_inv) (auto simp: declared_iff)
  qed
  then show ?thesis by (simp add: build_graph_def Let_def)
qed

lemma buildCodeGraph_graph:
  "nodes (snd (snd (buildCodeGraph e t0 t1 fs rootPath files))) = nodes (build_graph e t0 files) \<and>
   edges (snd (snd (buildCodeGraph e t0 t1 fs rootPath files))) = edges (build_graph e t0 files)"
  by (simp add: buildCodeGraph_def saveGraph_def Let_def split: sum.splits)

text \<open>
  Claim C5. In the store \<open>buildCodeGraph\<close> leaves, the target of every edge is a key of the
  node map.
\<close>

theorem build_edge_targets_exist:
  "(from, to, ty) \<in> set (edgesArray (snd (snd (buildCodeGraph e t0 t1 fs rootPath files)))) \<Longrightarrow>
   map_has (nodes (snd (snd (buildCodeGraph e t0 t1 fs rootPath files)))) to"
proof -
  assume a: "(from, to, ty) \<in> set (edgesArray (snd (snd (buildCodeGraph e t0 t1 fs rootPath files))))"
  let ?G = "build_graph e t0 files"
  have inv: "build_inv (nodes ?G) ?G"
    using build_graph_inv[of e t0 files] by (simp add: build_inv_def)
  have "(from, to, ty) \<in> set (edgesArray ?G)"
    using a buildCodeGraph_graph[of e t0 t1 fs rootPath files] by (simp add: edgesArray_def)
  then have "edge_ok (nodes ?G) (from, to, ty)" using inv by (auto simp: build_inv_def)
  then show ?thesis
    using buildCodeGraph_graph[of e t0 t1 fs rootPath files] by (simp add: edge_ok_def)
qed

text \<open>The \<open>calls\<close> edge to \<open>a.ts:foo:9\<close> of the example project.\<close>

theorem build_edge_targets_exist_witness:
  "(''b.js:2'', ''a.ts:foo:9'', ''calls'') \<in> set (edgesArray demo_graph) \<and>
   map_has (nodes demo_graph) ''a.ts:foo:9''"
proof -
  have a: "(''b.js:2'', ''a.ts:foo:9'', ''calls'') \<in> set (edgesArray demo_graph)"
    by code_simp
  from build_edge_targets_exist[OF a[unfolded demo_graph_def]] a
  show ?thesis by (simp add: demo_graph_def)
qed

lemma origin_inv_addEdge:
  "origin_inv fd g \<Longrightarrow> edge_origin fd (a, b, t) \<Longrightarrow> origin_inv fd (addEdge g a b t)"
  by (simp add: origin_inv_def set_edgesArray_addEdge)

lemma link_import_origin:
  assumes "entry \<in> set fd" and "imp \<in> set (pf_imports (snd entry))" and "origin_inv fd g"
  shows "origin_inv fd (link_import (fst entry) imp p td g)"
proof -
  have site: "edge_origin fd (import_site (fst entry) (imp_line imp), b, ''imports'')" for b
    using assms(1,2) by (auto simp: edge_origin_def)
  show ?thesis
    unfolding link_import_def
    by (rule fold_invariant[where P = "origin_inv fd"])
       (auto simp: Let_def assms(3) intro!: origin_inv_addEdge site)
qed

lemma try_files_origin:
  assumes "entry \<in> set fd" and "imp \<in> set (pf_imports (snd entry))" and "origin_inv fd g"
  shows "origin_inv fd (try_files fd' (fst entry) imp cs g)"
  by (induction cs) (auto simp: Let_def assms link_import_origin split: option.splits)

lemma connect_import_origin:
  assumes "entry \<in> set fd" and "imp \<in> set (pf_imports (snd entry))" and "origin_inv fd g"
  shows "origin_inv fd (connect_import e fd' (fst entry) imp g)"
  by (simp add: connect_import_def assms try_files_origin)

lemma connect_call_origin:
  assumes "entry \<in> set fd" and "c \<in> set (pf_symbols (snd entry))" and "sym_type c = ''call''"
    and "origin_inv fd g"
  shows "origin_inv fd (connect_call fd' (fst entry) c g)"
proof -
  have site: "edge_origin fd (call_site (fst entry) (sym_line c), b, ''calls'')" for b
    using assms(1,2,3) by (auto simp: edge_origin_def)
  show ?thesis
    unfolding connect_call_def Let_def
    by (rule fold_invariant[where P = "origin_inv fd"], rule assms(4),
        rule fold_invariant[where P = "origin_inv fd"])
       (auto intro!: origin_inv_addEdge site)
qed

lemma connect_extends_origin:
  assumes "entry \<in> set fd" and "s \<in> set (pf_symbols (snd entry))" and "sym_type s = ''class''"
    and "origin_inv fd g"
  shows "origin_inv fd (connect_extends fd' (fst entry) s g)"
proof -
  have site: "edge_origin fd (node_id (fst entry) (sym_name s) (sym_line s), b, ''extends'')" for b
    using assms(1,2,3) by (auto simp: edge_origin_def)
  show ?thesis
    unfolding connect_extends_def Let_def
    by (rule fold_invariant[where P = "origin_inv fd"], rule assms(4),
        rule fold_invariant[where P = "origin_inv fd"])
       (auto intro!: origin_inv_addEdge site)
qed

lemma connect_file_origin:
  assumes en: "entry \<in> set fd" and inv: "origin_inv fd g"
  shows "origin_inv fd (connect_file e fd' entry g)"
proof -
  let ?P = "origin_inv fd"
  let ?g1 = "fold (connect_import e fd' (fst entry)) (pf_imports (snd entry)) g"
  let ?g2 = "fold (\<lambda>symbol g. if sym_type symbol = ''call''
                                then connect_call fd' (fst entry) symbol g else g)
                   (pf_symbols (snd entry)) ?g1"
  have 1: "?P ?g1"
    by (rule fold_invariant[where P = ?P]) (simp_all add: inv en connect_import_origin)
  have 2: "?P ?g2"
    by (rule fold_invariant[where P = ?P]) (simp_all add: 1 en connect_call_origin)
  have "?P (fold (\<lambda>symbol g. if sym_type symbol = ''class'' \<and> truthy (sym_extends symbol)
                            then connect_extends fd' (fst entry) symbol g else g)
              (pf_symbols (snd entry)) ?g2)"
    by (rule fold_invariant[where P = ?P]) (simp_all add: 2 en connect_extends_origin)
  then show ?thesis by (simp add: connect_file_def Let_def)
qed

lemma build_graph_origin:
  "origin_inv (fst (parse_files e now files)) (build_graph e now files)"
proof -
  let ?st = "parse_files e now files"
  have e0: "edgesArray (snd ?st) = []" using parse_files_inv by blast
  have start: "origin_inv (fst ?st) (snd ?st)" using e0 by (simp add: origin_inv_def)
  have "origin_inv (fst ?st) (fold (connect_file e (fst ?st)) (fst ?st) (snd ?st))"
    by (rule fold_invariant[where P = "origin_inv (fst ?st)", OF start]) (rule connect_file_origin)
  then show ?thesis by (simp add: build_graph_def Let_def)
qed

lemma add_symbols_new_keys:
  "map_has (nodes (add_symbols f syms g)) k \<Longrightarrow>
   map_has (nodes g) k \<or>
   (\<exists>s \<in> set syms. sym_type s \<noteq> ''call'' \<and> k = node_id f (sym_name s) (sym_line s))"
proof (induction syms arbitrary: g)
  case Nil
  then show ?case by (simp add: add_symbols_def)
next
  case (Cons x syms)
  let ?g = "if sym_type x \<noteq> ''call''
            then addNode g (node_id f (sym_name x) (sym_line x)) x else g"
  from Cons.prems have "map_has (nodes (add_symbols f syms ?g)) k"
    by (simp add: add_symbols_Cons)
  from Cons.IH[OF this] show ?case
    by (auto simp: has_node_addNode split: if_splits)
qed

lemma parse_files_keys:
  assumes "map_has (nodes (snd (parse_files e now files))) k"
  shows "declaration_ids files k"
proof -
  let ?P = "\<lambda>st :: (string, parsed_file) jsmap \<times> code_graph. \<forall>k. map_has (nodes (snd st)) k \<longrightarrow> declaration_ids files k"
  have "?P (fold (parse_file e) files ([], new_CodeGraph now))"
  proof (rule fold_invariant[where P = ?P])
    show "?P ([], new_CodeGraph now)" by (simp add: new_CodeGraph_def map_has_def)
  next
    fix x t assume x: "x \<in> set files" and t: "?P t"
    show "?P (parse_file e x t)"
    proof (intro allI impI)
      fix k assume k: "map_has (nodes (snd (parse_file e x t))) k"
      show "declaration_ids files k"
      proof (cases "sf_readable x \<and> \<not> sf_size x > maxFileSize e")
        case False
        then have "parse_file e x t = t" by (auto simp: parse_file_def)
        then show ?thesis using k t by simp
      next
        case True
        then have "map_has (nodes (add_symbols (sf_path x) (pf_symbols (sf_parsed x)) (snd t))) k"
          using k by (simp add: parse_file_def)
        from add_symbols_new_keys[OF this] show ?thesis
          using t x by (auto simp: declaration_ids_def)
      qed
    qed
  qed
  then show ?thesis using assms by (simp add: parse_files_def)
qed

text \<open>
  Claim C2, as the code has it. In the store \<open>buildCodeGraph\<close> leaves, every edge ends at a
  key of the node map. An \<open>extends\<close> edge also starts at one, the id of a class symbol of a
  parsed file; an \<open>imports\<close> edge starts at the import site \<open>file:import:line\<close> of an
  import of a parsed file, and a \<open>calls\<close> edge at the call site \<open>file:line\<close> of a call
  symbol of a parsed file. Every key of the node map is the id \<open>file:name:line\<close> of a
  symbol of a file that is not a call: the build makes no node for a site.
\<close>

theorem build_edge_end_points:
  "((from, to, ty) \<in> set (edgesArray (snd (snd (buildCodeGraph e t0 t1 fs rootPath files)))) \<longrightarrow>
      map_has (nodes (snd (snd (buildCodeGraph e t0 t1 fs rootPath files)))) to \<and>
      ((ty = ''imports'' \<and>
        (\<exists>entry \<in> set (fst (parse_files e t0 files)). \<exists>imp \<in> set (pf_imports (snd entry)).
           from = import_site (fst entry) (imp_line imp))) \<or>
       (ty = ''calls'' \<and>
        (\<exists>entry \<in> set (fst (parse_files e t0 files)). \<exists>c \<in> set (pf_symbols (snd entry)).
           sym_type c = ''call'' \<and> from = call_site (fst entry) (sym_line c))) \<or>
       (ty = ''extends'' \<and>
        map_has (nodes (snd (snd (buildCodeGraph e t0 t1 fs rootPath files)))) from \<and>
        (\<exists>entry \<in> set (fst (parse_files e t0 files)). \<exists>s \<in> set (pf_symbols (snd entry)).
           sym_type s = ''class'' \<and> from = node_id (fst entry) (sym_name s) (sym_line s))))) \<and>
   (map_has (nodes (snd (snd (buildCodeGraph e t0 t1 fs rootPath files)))) k \<longrightarrow>
      (\<exists>sf \<in> set files. \<exists>s \<in> set (pf_symbols (sf_parsed sf)).
         sym_type s \<noteq> ''call'' \<and> k = node_id (sf_path sf) (sym_name s) (sym_line s)))"
proof -
  let ?G = "build_graph e t0 files"
  let ?B = "snd (snd (buildCodeGraph e t0 t1 fs rootPath files))"
  have same: "nodes ?B = nodes ?G" "edgesArray ?B = edgesArray ?G"
    using buildCodeGraph_graph[of e t0 t1 fs rootPath files] by (simp_all add: edgesArray_def)
  have inv: "build_inv (nodes ?G) ?G"
    using build_graph_inv[of e t0 files] by (simp add: build_inv_def)
  have parsed: "nodes ?G = nodes (snd (parse_files e t0 files))"
    using build_graph_inv[of e t0 files] by (simp add: build_inv_def)
  have first: ?thesis if a: "(from, to, ty) \<in> set (edgesArray ?B)"
  proof -
    have "edge_ok (nodes ?G) (from, to, ty)" using a inv same by (auto simp: build_inv_def)
    moreover have "edge_origin (fst (parse_files e t0 files)) (from, to, ty)"
      using a same build_graph_origin[of e t0 files] by (auto simp: origin_inv_def)
    moreover have "declaration_ids files k" if "map_has (nodes ?B) k"
      using that parse_files_keys[of e t0 files k] same parsed by simp
    ultimately show ?thesis
      unfolding same edge_ok_def edge_origin_def declaration_ids_def by auto
  qed
  have keys: "declaration_ids files k" if "map_has (nodes ?B) k"
    using that parse_files_keys[of e t0 files k] same parsed by simp
  show ?thesis
  proof (cases "(from, to, ty) \<in> set (edgesArray ?B)")
    case True
    then show ?thesis by (rule first)
  next
    case False
    then show ?thesis using keys by (auto simp: declaration_ids_def)
  qed
qed


text \<open>
  In the example project: the \<open>calls\<close> edge from the call site \<open>b.js:2\<close>, the \<open>extends\<close>
  edge between the two classes, and the node \<open>a.js:foo:1\<close> of a declared function.
\<close>

theorem build_edge_end_points_witness:
  "(''b.js:2'', ''a.js:foo:1'', ''calls'') \<in> set (edgesArray demo_graph) \<and>
   map_has (nodes demo_graph) ''a.js:foo:1'' \<and>
   (\<exists>entry \<in> set (fst (parse_files demo_env ''t0'' demo_project)).
      \<exists>c \<in> set (pf_symbols (snd entry)).
        sym_type c = ''call'' \<and> ''b.js:2'' = call_site (fst entry) (sym_line c)) \<and>
   (''b.js:Derived:4'', ''a.js:Base:5'', ''extends'') \<in> set (edgesArray demo_graph) \<and>
   map_has (nodes demo_graph) ''a.js:Base:5'' \<and>
   map_has (nodes demo_graph) ''b.js:Derived:4'' \<and>
   (\<exists>sf \<in> set demo_project. \<exists>s \<in> set (pf_symbols (sf_parsed sf)).
      sym_type s \<noteq> ''call'' \<and> ''a.js:foo:1'' = node_id (sf_path sf) (sym_name s) (sym_line s))"
proof -
  have a: "(''b.js:2'', ''a.js:foo:1'', ''calls'') \<in> set (edgesArray demo_graph)"
    by code_simp
  have b: "(''b.js:Derived:4'', ''a.js:Base:5'', ''extends'') \<in> set (edgesArray demo_graph)"
    by code_simp
  from build_edge_end_points[of "''b.js:2''" "''a.js:foo:1''" "''calls''" demo_env "''t0''" "''t1''"
         empty_db "''proj''" demo_project "''a.js:foo:1''"]
       build_edge_end_points[of "''b.js:Derived:4''" "''a.js:Base:5''" "''extends''" demo_env
         "''t0''" "''t1''" empty_db "''proj''" demo_project "''a.js:Base:5''"]
       a b
  show ?thesis by (simp add: demo_graph_def)
qed

text \<open>
  The \<open>calls\<close> edge of the example project to \<open>a.js:foo:1\<close> starts at the call site
  \<open>b.js:2\<close>, which is not a key of the node map.
\<close>

theorem build_edge_source_counterexample:
  "(''b.js:2'', ''a.js:foo:1'', ''calls'') \<in> set (edgesArray demo_graph) \<and>
   map_has (nodes demo_graph) ''a.js:foo:1'' \<and>
   \<not> map_has (nodes demo_graph) ''b.js:2''"
  by code_simp

subsection \<open>The build: call resolution\<close>






















subsection \<open>The build: import resolution\<close>

lemma try_files_find:
  "try_files fd file imp cs g =
     (case find (\<lambda>p. map_has fd p) (map strip_dot_slash cs) of
        None \<Rightarrow> g
      | Some p \<Rightarrow> (case map_of fd p of None \<Rightarrow> g | Some td \<Rightarrow> link_import file imp p td g))"
  by (induction cs) (auto simp: Let_def map_has_def split: option.splits)

text \<open>
  Claim C7. The candidates of an import are the resolved path (the importer's directory
  joined with the import source, back slashes turned into slashes) followed by \<open>.js\<close>,
  \<open>.ts\<close>, \<open>.jsx\<close>, \<open>.tsx\<close>, \<open>/index.js\<close>, \<open>/index.ts\<close>, in this order. For a source
  starting with a dot the import is linked against the first candidate (a leading \<open>./\<close>
  removed) that is a key of \<open>fileData\<close>, and against that file only; when there is none,
  or the source does not start with a dot, the graph is left as it is.
\<close>

theorem import_resolution_first_candidate:
  "possibleFiles e file imp =
     map (\<lambda>suffix. resolvedPath e file imp @ suffix)
       [''.js'', ''.ts'', ''.jsx'', ''.tsx'', ''/index.js'', ''/index.ts''] \<and>
   resolvedPath e file imp = slashes (path_join e (path_dirname e file) (imp_source imp)) \<and>
   connect_import e fileData file imp g =
     (if startsWith (imp_source imp) ''.''
      then (case find (\<lambda>p. map_has fileData p)
                   (map strip_dot_slash (possibleFiles e file imp)) of
              None \<Rightarrow> g
            | Some p \<Rightarrow> (case map_of fileData p of
                          None \<Rightarrow> g
                        | Some targetData \<Rightarrow> link_import file imp p targetData g))
      else g)"
  by (simp add: possibleFiles_def resolvedPath_def connect_import_def try_files_find)

text \<open>
  In the example project \<open>a.ts\<close> comes before \<open>a.js\<close> in \<open>fileData\<close>, yet the import of
  \<open>./a\<close> is linked against \<open>a.js\<close>, the first candidate, and against nothing of \<open>a.ts\<close>.
\<close>

theorem import_resolution_first_candidate_witness:
  "possibleFiles demo_env ''b.js'' demo_import =
     [''a.js'', ''a.ts'', ''a.jsx'', ''a.tsx'', ''a/index.js'', ''a/index.ts''] \<and>
   map fst (fst (parse_files demo_env ''t0'' demo_project)) = [''a.ts'', ''a.js'', ''b.js''] \<and>
   find (\<lambda>p. map_has (fst (parse_files demo_env ''t0'' demo_project)) p)
     (map strip_dot_slash (possibleFiles demo_env ''b.js'' demo_import)) = Some ''a.js'' \<and>
   edgesArray (connect_import demo_env (fst (parse_files demo_env ''t0'' demo_project)) ''b.js''
                 demo_import (snd (parse_files demo_env ''t0'' demo_project))) =
     [(''b.js:import:1'', ''a.js:foo:1'', ''imports'')]"
proof -
  have a: "possibleFiles demo_env ''b.js'' demo_import =
     [''a.js'', ''a.ts'', ''a.jsx'', ''a.tsx'', ''a/index.js'', ''a/index.ts'']"
    by code_simp
  have b: "map fst (fst (parse_files demo_env ''t0'' demo_project)) = [''a.ts'', ''a.js'', ''b.js'']"
    by code_simp
  have c: "find (\<lambda>p. map_has (fst (parse_files demo_env ''t0'' demo_project)) p)
     (map strip_dot_slash (possibleFiles demo_env ''b.js'' demo_import)) = Some ''a.js''"
    by code_simp
  have d: "edgesArray (connect_import demo_env (fst (parse_files demo_env ''t0'' demo_project)) ''b.js''
                 demo_import (snd (parse_files demo_env ''t0'' demo_project))) =
     [(''b.js:import:1'', ''a.js:foo:1'', ''imports'')]"
    by code_simp
  from import_resolution_first_candidate[of demo_env "''b.js''" demo_import
      "fst (parse_files demo_env ''t0'' demo_project)" "snd (parse_files demo_env ''t0'' demo_project)"]
    a b c d
  show ?thesis by simp
qed

subsection \<open>The cache: deleting and loading\<close>

lemma ensureDbDirectory_files: "db_files (ensureDbDirectory fs) = db_files fs"
  by (simp add: ensureDbDirectory_def)

lemma deleteGraph_absent:
  assumes "map_of (db_files fs) (cache_filename e path) = None"
  shows "deleteGraph e fs path = (Inr False, ensureDbDirectory fs)"
  using assms
  by (simp add: deleteGraph_def Let_def fs_unlink_def map_has_def ensureDbDirectory_files)

text \<open>
  Claim C9, as the code has it. When the cache directory has no entry for a project path,
  \<open>deleteGraph\<close> returns \<open>false\<close> without raising and leaves the files alone, and for a
  non-empty path the \<open>clear_cache\<close> tool answers \<open>success: false\<close> with the message
  \<open>No cache found for project\<close>. (An empty path is falsy in the handler's test and selects
  the branch that clears every cache.)
\<close>

theorem delete_absent_entry:
  assumes "map_of (db_files fs) (cache_filename e path) = None"
  shows "deleteGraph e fs path = (Inr False, ensureDbDirectory fs) \<and>
         (path \<noteq> [] \<longrightarrow>
            clear_cache e fs (Some path) =
              (Reply False ''No cache found for project'', ensureDbDirectory fs))"
  using deleteGraph_absent[OF assms] by (simp add: clear_cache_def truthy_def)

text \<open>The project \<open>proj\<close> on an empty cache directory.\<close>

theorem delete_absent_entry_witness:
  "map_of (db_files empty_db) (cache_filename demo_env ''proj'') = None \<and>
   deleteGraph demo_env empty_db ''proj'' = (Inr False, ensureDbDirectory empty_db) \<and>
   clear_cache demo_env empty_db (Some ''proj'') =
     (Reply False ''No cache found for project'', ensureDbDirectory empty_db)"
proof -
  have a: "map_of (db_files empty_db) (cache_filename demo_env ''proj'') = None"
    by (simp add: empty_db_def)
  from delete_absent_entry[OF a] a show ?thesis by simp
qed

text \<open>
  The empty project path has no entry in a directory that holds the cache of \<open>proj\<close>, yet
  \<open>clear_cache\<close> with this path deletes that cache and answers \<open>Cleared 1 cached graphs\<close>.
\<close>

theorem clear_cache_empty_path_counterexample:
  "map_of (db_files other_db) (cache_filename demo_env []) = None \<and>
   clear_cache demo_env other_db (Some []) =
     (Reply True ''Cleared 1 cached graphs'', other_db \<lparr> db_files := [] \<rparr>) \<and>
   fst (clear_cache demo_env other_db (Some [])) \<noteq> Reply False ''No cache found for project''"
  by code_simp

text \<open>
  Claim C10. When the cache entry of the project path is absent, or its text cannot be
  parsed, \<open>loadGraph\<close> returns \<open>false\<close> and the global graph is the one it was; the graph is
  replaced only when \<open>loadGraph\<close> returns \<open>true\<close>, and then by the graph \<open>fromJSON\<close> makes
  of the parsed document.
\<close>

theorem loadGraph_keeps_store_on_failure:
  "((map_of (db_files fs) (cache_filename e path) = None \<or>
     (\<exists>text. map_of (db_files fs) (cache_filename e path) = Some text \<and> json_parse e text = None))
      \<longrightarrow> loadGraph e now fs codeGraph path = (False, ensureDbDirectory fs, codeGraph)) \<and>
   (fst (loadGraph e now fs codeGraph path) \<longrightarrow>
      (\<exists>text doc. map_of (db_files fs) (cache_filename e path) = Some text \<and>
                  json_parse e text = Some doc \<and>
                  snd (snd (loadGraph e now fs codeGraph path)) = fromJSON now doc)) \<and>
   (\<not> fst (loadGraph e now fs codeGraph path) \<longrightarrow>
      snd (snd (loadGraph e now fs codeGraph path)) = codeGraph)"
  by (auto simp: loadGraph_def Let_def fs_readFile_def ensureDbDirectory_files
      split: option.splits sum.splits)

text \<open>
  The graph of the example project stays loaded when the cache is empty and when the
  cache file of \<open>proj\<close> is cut off in the middle.
\<close>

theorem loadGraph_keeps_store_on_failure_witness:
  "map_of (db_files empty_db) (cache_filename demo_env ''proj'') = None \<and>
   loadGraph demo_env ''t2'' empty_db demo_graph ''proj'' =
     (False, ensureDbDirectory empty_db, demo_graph) \<and>
   map_of (db_files broken_db) (cache_filename demo_env ''proj'') = Some ''{ nodes: ['' \<and>
   json_parse demo_env ''{ nodes: ['' = None \<and>
   loadGraph demo_env ''t2'' broken_db demo_graph ''proj'' =
     (False, ensureDbDirectory broken_db, demo_graph)"
proof -
  have a: "map_of (db_files empty_db) (cache_filename demo_env ''proj'') = None"
    by (simp add: empty_db_def)
  have b: "map_of (db_files broken_db) (cache_filename demo_env ''proj'') = Some ''{ nodes: [''"
    by code_simp
  have c: "json_parse demo_env ''{ nodes: ['' = None"
    by code_simp
  from loadGraph_keeps_store_on_failure[of empty_db demo_env "''proj''" "''t2''" demo_graph]
       loadGraph_keeps_store_on_failure[of broken_db demo_env "''proj''" "''t2''" demo_graph]
       a b c
  show ?thesis by simp
qed

end
